theory Spec2Isabelle
  imports Main "HOL-Library.Word" "HOL-Library.Sublist"
begin

section \<open>Data node: the space manager (datanode/space\_manager.go)\<close>

type_synonym uint32 = "32 word"
type_synonym uint64 = "64 word"

text \<open>
  A \<open>*Disk\<close> as far as the space manager reads it: its path (the key of \<open>disks\<close>) and
  its available bytes (the fit filter of \<open>CreatePartition\<close>).
\<close>

record Disk =
  Path :: string
  Available :: uint64

text \<open>
  The \<open>DataPartition\<close> interface as far as the space manager calls it: \<open>ID()\<close>,
  \<open>Path()\<close> and \<open>Disk()\<close> (the path of the disk it lives on).
\<close>

record DataPartition =
  dp_ID :: uint32
  dp_Path :: string
  dp_Disk :: string

record CreateDataPartitionRequest =
  PartitionId :: uint64
  PartitionSize :: int
  VolumeId :: string
  RandomWrite :: bool

record dataPartitionCfg =
  cfg_PartitionId :: uint32
  cfg_VolName :: string
  cfg_NodeId :: uint64
  cfg_ClusterId :: string
  cfg_PartitionSize :: int
  cfg_RandomWrite :: bool

record spaceManager =
  clusterId :: string
  disks :: "string \<rightharpoonup> Disk"
  partitions :: "uint32 \<rightharpoonup> DataPartition"
  nodeId :: uint64
  chooseIndex :: int
  diskList :: "string list"

datatype go_panic = IndexOutOfRange | NilPointerDereference | InterfaceConversion

datatype create_error = ErrNoDiskForCreatePartition | ErrCreateDataPartition string

text \<open>What \<open>DeletePartition\<close> does to its collaborators, in the order it does it.\<close>

datatype dn_event =
    Stop uint32
  | DetachDataPartition string uint32
  | RemoveAll string

definition NewSpaceManager :: spaceManager where
  "NewSpaceManager =
     \<lparr>clusterId = [], disks = Map.empty, partitions = Map.empty, nodeId = 0,
      chooseIndex = 0, diskList = []\<rparr>"

definition GetDisk :: "string \<Rightarrow> spaceManager \<Rightarrow> Disk option" where
  "GetDisk path space = disks space path"

definition putDisk :: "Disk \<Rightarrow> spaceManager \<Rightarrow> spaceManager" where
  "putDisk d space =
     space\<lparr>disks := (disks space)(Path d \<mapsto> d), diskList := diskList space @ [Path d]\<rparr>"

text \<open>The visitor \<open>LoadDisk\<close> hands to \<open>RestorePartition\<close>: register a partition if absent.\<close>

definition visitor :: "spaceManager \<Rightarrow> DataPartition \<Rightarrow> spaceManager" where
  "visitor space dp =
     (case partitions space (dp_ID dp) of
        None \<Rightarrow> space\<lparr>partitions := (partitions space)(dp_ID dp \<mapsto> dp)\<rparr>
      | Some _ \<Rightarrow> space)"

text \<open>
  \<open>LoadDisk\<close>. \<open>NewDisk\<close> and the partitions \<open>RestorePartition\<close> finds on the disk
  are outside the file: the first is the parameter \<open>newDisk\<close>, the second the list
  \<open>restored\<close> the visitor is called on.
\<close>

definition LoadDisk ::
  "(string \<Rightarrow> uint64 \<Rightarrow> int \<Rightarrow> Disk) \<Rightarrow> DataPartition list \<Rightarrow>
   string \<Rightarrow> uint64 \<Rightarrow> int \<Rightarrow> spaceManager \<Rightarrow> spaceManager" where
  "LoadDisk newDisk restored path restSize maxErrs space =
     (case GetDisk path space of
        Some _ \<Rightarrow> space
      | None \<Rightarrow> putDisk (newDisk path restSize maxErrs) (foldl visitor space restored))"

text \<open>
  \<open>getMinPartitionCntDisk\<close>: the cursor wraps to 0 when it has run past the list, the
  path under it is read (Go panics on an empty list), the disk is looked up (nil when
  the path is no key of \<open>disks\<close>) and the cursor advances.
\<close>

definition getMinPartitionCntDisk ::
  "spaceManager \<Rightarrow> go_panic + (Disk option \<times> spaceManager)" where
  "getMinPartitionCntDisk space =
     (let idx = (if chooseIndex space \<ge> int (length (diskList space)) then 0
                 else chooseIndex space)
      in if idx < 0 \<or> idx \<ge> int (length (diskList space)) then Inl IndexOutOfRange
         else Inr (disks space (diskList space ! nat idx), space\<lparr>chooseIndex := idx + 1\<rparr>))"

text \<open>
  The loop of \<open>CreatePartition\<close>: \<open>n\<close> iterations are left, \<open>calls\<close> counts the
  selector's calls so far. A disk that is too small is dropped (\<open>disk = nil; continue\<close>);
  the first that fits ends the loop. Reading \<open>Available\<close> of a nil disk panics.
\<close>

fun fitLoop ::
  "nat \<Rightarrow> uint64 \<Rightarrow> spaceManager \<Rightarrow> nat \<Rightarrow> go_panic + (Disk option \<times> spaceManager \<times> nat)" where
  "fitLoop 0 sz space calls = Inr (None, space, calls)"
| "fitLoop (Suc n) sz space calls =
     (case getMinPartitionCntDisk space of
        Inl p \<Rightarrow> Inl p
      | Inr (None, space') \<Rightarrow> Inl NilPointerDereference
      | Inr (Some d, space') \<Rightarrow>
          if Available d < sz then fitLoop n sz space' (Suc calls)
          else Inr (Some d, space', Suc calls))"

definition GetPartition :: "uint32 \<Rightarrow> spaceManager \<Rightarrow> DataPartition option" where
  "GetPartition partitionId space = partitions space partitionId"

text \<open>
  \<open>CreatePartition\<close>. The factory \<open>CreateDataPartition\<close> is outside the file and is a
  parameter. The result is the pair of named results \<open>(dp, err)\<close>, the manager after the
  call and the number of selector calls made.
\<close>

definition CreatePartition ::
  "(dataPartitionCfg \<Rightarrow> Disk \<Rightarrow> string + DataPartition) \<Rightarrow> CreateDataPartitionRequest \<Rightarrow>
   spaceManager \<Rightarrow>
   go_panic + ((DataPartition option \<times> create_error option) \<times> spaceManager \<times> nat)" where
  "CreatePartition CreateDataPartition request space =
     (let dpCfg = \<lparr>cfg_PartitionId = ucast (PartitionId request),
                    cfg_VolName = VolumeId request,
                    cfg_NodeId = nodeId space,
                    cfg_ClusterId = clusterId space,
                    cfg_PartitionSize = PartitionSize request,
                    cfg_RandomWrite = RandomWrite request\<rparr>
      in case partitions space (cfg_PartitionId dpCfg) of
           Some dp \<Rightarrow> Inr ((Some dp, None), space, 0)
         | None \<Rightarrow>
             (case fitLoop (card (dom (disks space)))
                     (word_of_int (cfg_PartitionSize dpCfg)) space 0 of
                Inl p \<Rightarrow> Inl p
              | Inr (None, space', calls) \<Rightarrow>
                  Inr ((None, Some ErrNoDiskForCreatePartition), space', calls)
              | Inr (Some disk, space', calls) \<Rightarrow>
                  (case CreateDataPartition dpCfg disk of
                     Inl msg \<Rightarrow> Inr ((None, Some (ErrCreateDataPartition msg)), space', calls)
                   | Inr dp \<Rightarrow>
                       Inr ((Some dp, None),
                            space'\<lparr>partitions := (partitions space')(dp_ID dp \<mapsto> dp)\<rparr>,
                            calls))))"

definition DeletePartition :: "uint32 \<Rightarrow> spaceManager \<Rightarrow> spaceManager \<times> dn_event list" where
  "DeletePartition dpId space =
     (case GetPartition dpId space of
        None \<Rightarrow> (space, [])
      | Some dp \<Rightarrow>
          (space\<lparr>partitions := (partitions space)(dpId := None)\<rparr>,
           [Stop (dp_ID dp), DetachDataPartition (dp_Disk dp) (dp_ID dp), RemoveAll (dp_Path dp)]))"

text \<open>
  The manager's invariant: the disk list names every registered disk once, and the cursor
  never went below zero.
\<close>

definition wf_space :: "spaceManager \<Rightarrow> bool" where
  "wf_space space \<longleftrightarrow>
     distinct (diskList space) \<and> set (diskList space) = dom (disks space) \<and> 0 \<le> chooseIndex space"

section \<open>Data node: the extent release hook (releaseExtent)\<close>

text \<open>
  What the packet's \<open>Object\<close> field, an empty interface, can hold: nothing (the nil
  interface), a \<open>*DataPartition\<close> (which may itself be a nil pointer, \<open>PartitionPtr None\<close>,
  or point to the partition with handle \<open>h\<close>, \<open>PartitionPtr (Some h)\<close>), or a value
  of another type.
\<close>

datatype object_value = NilObject | PartitionPtr "nat option" | OtherObject

text \<open>
  The packet as the hook reads it. \<open>Object\<close> is the back-reference to the owning
  partition. The fields \<open>is_error\<close> and \<open>is_forward\<close> are the spec's view of what
  the packet's own methods read.
\<close>

record Packet =
  Opcode :: "8 word"
  ExtentMode :: "8 word"
  ExtentID :: uint64
  IsRelase :: "32 word"
  Object :: object_value
  NeedReply :: bool
  is_error :: bool
  is_forward :: bool

text \<open>
  The helpers and constants of the \<open>storage\<close>, \<open>repl\<close> and \<open>proto\<close> packages the
  hook calls. Their code is outside the files at hand, so they are parameters: every
  theorem below holds for whatever they compute.
\<close>

record pkt_helpers =
  IsTinyExtent :: "uint64 \<Rightarrow> bool"
  isLeaderPacket :: "Packet \<Rightarrow> bool"
  isWriteOperation :: "Packet \<Rightarrow> bool"
  IsForwardPkg :: "Packet \<Rightarrow> bool"
  IsErrPacket :: "Packet \<Rightarrow> bool"
  IsMasterCommand :: "Packet \<Rightarrow> bool"
  TinyExtentMode :: "8 word"
  HasReturnToStore :: "32 word"

text \<open>
  A partition's extent store, as far as the hook writes it: the two queues of tiny
  extents, oldest first.
\<close>

record ExtentStore =
  AvaliCh :: "uint64 list"
  UnavaliCh :: "uint64 list"

type_synonym stores = "nat \<Rightarrow> ExtentStore"

definition PutTinyExtentToAvaliCh :: "nat \<Rightarrow> uint64 \<Rightarrow> stores \<Rightarrow> stores" where
  "PutTinyExtentToAvaliCh part extentId st =
     st(part := (st part)\<lparr>AvaliCh := AvaliCh (st part) @ [extentId]\<rparr>)"

definition PutTinyExtentToUnavaliCh :: "nat \<Rightarrow> uint64 \<Rightarrow> stores \<Rightarrow> stores" where
  "PutTinyExtentToUnavaliCh part extentId st =
     st(part := (st part)\<lparr>UnavaliCh := UnavaliCh (st part) @ [extentId]\<rparr>)"

text \<open>
  \<open>releaseExtent\<close>: the packet pointer (nil is \<open>None\<close>) and the stores go in; the
  packet as the call leaves it and the stores come out, or the call panics. The three
  guards are in the source's order; \<open>||\<close> is short-circuit, so nothing of a nil packet
  is read. Behind the guards the source asserts \<open>pkg.Object.(*DataPartition)\<close> with
  no check, which panics on a value of another type, and calls \<open>GetStore()\<close> on the
  pointer it got. \<open>GetStore\<close> is outside the files at hand; it hands out the store the
  partition holds, so on a nil pointer the call is a nil dereference.
\<close>

definition releaseExtent ::
  "pkt_helpers \<Rightarrow> Packet option \<Rightarrow> stores \<Rightarrow> go_panic + (Packet option \<times> stores)" where
  "releaseExtent H pkg st =
     (case pkg of
        None \<Rightarrow> Inr (None, st)
      | Some p \<Rightarrow>
          if \<not> IsTinyExtent H (ExtentID p) \<or> ExtentID p \<le> 0 \<or> IsRelase p = HasReturnToStore H
          then Inr (Some p, st)
          else if ExtentMode p \<noteq> TinyExtentMode H \<or> \<not> isLeaderPacket H p \<or>
                  \<not> isWriteOperation H p \<or> \<not> IsForwardPkg H p
          then Inr (Some p, st)
          else (case Object p of
                  NilObject \<Rightarrow> Inr (Some p, st)
                | OtherObject \<Rightarrow> Inl InterfaceConversion
                | PartitionPtr None \<Rightarrow> Inl NilPointerDereference
                | PartitionPtr (Some part) \<Rightarrow>
                    Inr (Some (p\<lparr>IsRelase := HasReturnToStore H\<rparr>),
                         if IsErrPacket H p then PutTinyExtentToUnavaliCh part (ExtentID p) st
                         else PutTinyExtentToAvaliCh part (ExtentID p) st)))"

text \<open>
  \<open>addMetrics\<close>, the next step of \<open>Post\<close> on the same packet: it makes the same
  assertion on \<open>Object\<close> and then tests the pointer it got against nil. The result says
  whether \<open>AfterTp\<close> was called.
\<close>

definition addMetrics :: "pkt_helpers \<Rightarrow> Packet \<Rightarrow> go_panic + bool" where
  "addMetrics H reply =
     (if IsMasterCommand H reply then Inr False
      else (case Object reply of
              NilObject \<Rightarrow> Inr True
            | OtherObject \<Rightarrow> Inl InterfaceConversion
            | PartitionPtr None \<Rightarrow> Inr True
            | PartitionPtr (Some part) \<Rightarrow> Inr True))"

section \<open>Master: the admin task sender (master/admin\_task\_sender.go)\<close>

type_synonym addr = nat

datatype task_status = TaskPending | TaskRunning | TaskSucceeded | TaskFailed | TaskTimedOut

text \<open>
  Modelled from the spec: the \<open>proto.AdminTask\<close> struct is declared outside the files at
  hand. The spec gives it an id, an opcode, a status, a send count (an integer that grows
  on each attempt) and a send time (zero when never sent).
\<close>

record AdminTask =
  ID :: string
  OpCode :: "8 word"
  Status :: task_status
  SendTime :: int
  SendCount :: int

datatype task_class = Heartbeat | Urgent | Normal

text \<open>
  The methods and constants of the \<open>proto\<close> package the sender calls, as parameters.
  \<open>taskClass\<close> is modelled from the spec, which derives three classes (heartbeat,
  urgent, normal) from the opcode; the two time predicates take the clock's reading.
\<close>

record proto_helpers =
  taskClass :: "8 word \<Rightarrow> task_class"
  CheckTaskNeedSend :: "int \<Rightarrow> AdminTask \<Rightarrow> bool"
  CheckTaskTimeOut :: "int \<Rightarrow> AdminTask \<Rightarrow> bool"
  OpMetaNodeHeartbeat :: "8 word"
  OpDataNodeHeartbeat :: "8 word"
  OpOk :: "8 word"

definition IsHeartbeatTask :: "proto_helpers \<Rightarrow> AdminTask \<Rightarrow> bool" where
  "IsHeartbeatTask P t \<longleftrightarrow> taskClass P (OpCode t) = Heartbeat"

definition IsUrgentTask :: "proto_helpers \<Rightarrow> AdminTask \<Rightarrow> bool" where
  "IsUrgentTask P t \<longleftrightarrow> taskClass P (OpCode t) = Urgent"

text \<open>
  Modelled from the spec: the predicates \<open>needs_send\<close> and \<open>timed_out\<close> of the spec's
  data model, used to instantiate the two parameters in the examples.
\<close>

definition needs_send :: "int \<Rightarrow> int \<Rightarrow> AdminTask \<Rightarrow> bool" where
  "needs_send resend_interval now t \<longleftrightarrow>
     Status t = TaskPending \<or> (Status t = TaskRunning \<and> now - SendTime t \<ge> resend_interval)"

definition timed_out :: "int \<Rightarrow> int \<Rightarrow> int \<Rightarrow> AdminTask \<Rightarrow> bool" where
  "timed_out max_sends task_timeout now t \<longleftrightarrow>
     SendCount t \<ge> max_sends \<or> (SendTime t > 0 \<and> now - SendTime t \<ge> task_timeout)"

text \<open>
  The sender. Tasks are shared by pointer between the registry, the batch of a tick and
  the caller, so they live in a store: \<open>TaskMap\<close> maps a task id to an address and
  \<open>heap\<close> an address to the task there.
\<close>

record sender =
  clusterID :: string
  targetAddr :: string
  TaskMap :: "string \<rightharpoonup> addr"
  heap :: "addr \<Rightarrow> AdminTask"

datatype deadline = ReadDeadlineTime | CreateDataPartitionDeadlineTime

text \<open>What the sender does to the connection pool, the connection, the log and the alarms.\<close>

datatype event =
    GetConnect
  | PutConnect bool
  | WriteToConn addr
  | ReadFromConn addr deadline
  | LogWarnf string
  | Warn string
  | WarnBySpecialUmpKey
  | LogError addr
  | LogDebugf addr
  | LogInfof addr
  | Sleep

text \<open>
  What the outside does to one send once a connection is held: \<open>json.Marshal\<close> fails, the
  write fails, the read fails, or a reply arrives with its result code and data.
\<close>

datatype conn_io = MarshalErr | WriteErr | ReadErr | Reply "8 word" string

text \<open>
  The errors of a send. \<open>Errorf fmt\<close> is the error \<open>fmt.Errorf\<close> builds from the
  format string \<open>fmt\<close> and no operands; its message is \<open>fmt\<close> itself only where
  \<open>fmt\<close> holds no \<open>%\<close>.
\<close>

datatype send_error =
  BuildPacketFailed | WriteToConnFailed | ReadFromConnFailed | Errorf string

definition MaxTaskLen :: nat where
  "MaxTaskLen = 30"

definition updateTaskInfo :: "addr \<Rightarrow> bool \<Rightarrow> int \<Rightarrow> sender \<Rightarrow> sender" where
  "updateTaskInfo task connSuccess now s =
     (let t = (heap s task)\<lparr>SendCount := SendCount (heap s task) + 1\<rparr>
      in s\<lparr>heap := (heap s)(task :=
             if connSuccess then t\<lparr>SendTime := now, Status := TaskRunning\<rparr> else t)\<rparr>)"

text \<open>
  \<open>getNeedDeleteTasks\<close>. The order in which Go ranges over the map is not fixed, so the
  keys come as a list \<open>ks\<close>; a key with no entry is passed over.
\<close>

fun getNeedDeleteTasks ::
  "proto_helpers \<Rightarrow> int \<Rightarrow> sender \<Rightarrow> string list \<Rightarrow> addr list \<Rightarrow> event list \<Rightarrow>
   addr list \<times> event list" where
  "getNeedDeleteTasks P now s [] delTasks es = (delTasks, es)"
| "getNeedDeleteTasks P now s (k # ks) delTasks es =
     (case TaskMap s k of
        None \<Rightarrow> getNeedDeleteTasks P now s ks delTasks es
      | Some task \<Rightarrow>
          if CheckTaskTimeOut P now (heap s task)
          then getNeedDeleteTasks P now s ks (delTasks @ [task])
                 (es @ [LogWarnf (ID (heap s task))] @
                    (if SendTime (heap s task) > 0 then [Warn (ID (heap s task))] else []))
          else getNeedDeleteTasks P now s ks delTasks es)"

definition DelTask :: "proto_helpers \<Rightarrow> addr \<Rightarrow> sender \<Rightarrow> sender \<times> event list" where
  "DelTask P t s =
     (case TaskMap s (ID (heap s t)) of
        None \<Rightarrow> (s, [])
      | Some _ \<Rightarrow>
          (s\<lparr>TaskMap := (TaskMap s)(ID (heap s t) := None)\<rparr>,
           if OpCode (heap s t) \<noteq> OpMetaNodeHeartbeat P \<and> OpCode (heap s t) \<noteq> OpDataNodeHeartbeat P
           then [LogDebugf t] else []))"

definition PutTask :: "addr \<Rightarrow> sender \<Rightarrow> sender" where
  "PutTask t s =
     (case TaskMap s (ID (heap s t)) of
        None \<Rightarrow> s\<lparr>TaskMap := (TaskMap s)(ID (heap s t) \<mapsto> t)\<rparr>
      | Some _ \<Rightarrow> s)"

fun DelTasks :: "proto_helpers \<Rightarrow> addr list \<Rightarrow> sender \<Rightarrow> sender \<times> event list" where
  "DelTasks P [] s = (s, [])"
| "DelTasks P (t # ts) s =
     (case DelTask P t s of
        (s1, es1) \<Rightarrow> (case DelTasks P ts s1 of (s2, es2) \<Rightarrow> (s2, es1 @ es2)))"

definition doDeleteTasks ::
  "proto_helpers \<Rightarrow> int \<Rightarrow> string list \<Rightarrow> sender \<Rightarrow> sender \<times> event list" where
  "doDeleteTasks P now ks s =
     (case getNeedDeleteTasks P now s ks [] [] of
        (delTasks, es) \<Rightarrow> (case DelTasks P delTasks s of (s', es') \<Rightarrow> (s', es @ es')))"

text \<open>
  The first two loops of \<open>getNeedDealTask\<close>: a task the phase selects is appended to the
  batch and stamped (\<open>SendTime = now\<close>, \<open>SendCount++\<close>) on the spot.
\<close>

fun markLoop ::
  "(AdminTask \<Rightarrow> bool) \<Rightarrow> int \<Rightarrow> string list \<Rightarrow> addr list \<Rightarrow> sender \<Rightarrow> addr list \<times> sender" where
  "markLoop sel now [] tasks s = (tasks, s)"
| "markLoop sel now (k # ks) tasks s =
     (case TaskMap s k of
        None \<Rightarrow> markLoop sel now ks tasks s
      | Some t \<Rightarrow>
          if sel (heap s t)
          then markLoop sel now ks (tasks @ [t])
                 (s\<lparr>heap := (heap s)(t := (heap s t)\<lparr>SendTime := now,
                                                     SendCount := SendCount (heap s t) + 1\<rparr>)\<rparr>)
          else markLoop sel now ks tasks s)"

text \<open>
  The third loop: a normal task that needs sending is appended, and only then, at the end
  of every pass, is the length compared with \<open>MaxTaskLen\<close>.
\<close>

fun normalLoop ::
  "proto_helpers \<Rightarrow> int \<Rightarrow> sender \<Rightarrow> string list \<Rightarrow> addr list \<Rightarrow> addr list" where
  "normalLoop P now s [] tasks = tasks"
| "normalLoop P now s (k # ks) tasks =
     (case TaskMap s k of
        None \<Rightarrow> normalLoop P now s ks tasks
      | Some task \<Rightarrow>
          (let tasks' =
                 (if \<not> IsHeartbeatTask P (heap s task) \<and> \<not> IsUrgentTask P (heap s task) \<and>
                     CheckTaskNeedSend P now (heap s task)
                  then tasks @ [task] else tasks)
           in if length tasks' > MaxTaskLen then tasks' else normalLoop P now s ks tasks'))"

text \<open>
  \<open>getNeedDealTask\<close>: each loop ranges over the map in an order of its own
  (\<open>ks1\<close>, \<open>ks2\<close>, \<open>ks3\<close>).
\<close>

definition getNeedDealTask ::
  "proto_helpers \<Rightarrow> int \<Rightarrow> string list \<Rightarrow> string list \<Rightarrow> string list \<Rightarrow> sender \<Rightarrow>
   addr list \<times> sender" where
  "getNeedDealTask P now ks1 ks2 ks3 s =
     (case markLoop (\<lambda>t. IsHeartbeatTask P t \<and> CheckTaskNeedSend P now t) now ks1 [] s of
        (tasks1, s1) \<Rightarrow>
          (case markLoop (\<lambda>t. IsUrgentTask P t \<and> CheckTaskNeedSend P now t) now ks2 tasks1 s1 of
             (tasks2, s2) \<Rightarrow> (normalLoop P now s2 ks3 tasks2, s2)))"

text \<open>\<open>sendAdminTask\<close>: the error it returns, the sender after it and what it did.\<close>

definition sendAdminTask ::
  "conn_io \<Rightarrow> int \<Rightarrow> addr \<Rightarrow> sender \<Rightarrow> send_error option \<times> sender \<times> event list" where
  "sendAdminTask io now task s =
     (case io of
        MarshalErr \<Rightarrow> (Some BuildPacketFailed, s, [])
      | WriteErr \<Rightarrow> (Some WriteToConnFailed, s, [WriteToConn task])
      | ReadErr \<Rightarrow>
          (Some ReadFromConnFailed, s, [WriteToConn task, ReadFromConn task ReadDeadlineTime])
      | Reply resultCode data \<Rightarrow>
          (None, updateTaskInfo task True now s,
           [WriteToConn task, ReadFromConn task ReadDeadlineTime, LogDebugf task]))"

definition syncCreatePartition ::
  "proto_helpers \<Rightarrow> conn_io \<Rightarrow> addr \<Rightarrow> sender \<Rightarrow> send_error option \<times> sender \<times> event list" where
  "syncCreatePartition P io task s =
     (case io of
        MarshalErr \<Rightarrow> (Some BuildPacketFailed, s, [LogInfof task])
      | WriteErr \<Rightarrow> (Some WriteToConnFailed, s, [LogInfof task, WriteToConn task])
      | ReadErr \<Rightarrow>
          (Some ReadFromConnFailed, s,
           [LogInfof task, WriteToConn task, ReadFromConn task CreateDataPartitionDeadlineTime])
      | Reply resultCode data \<Rightarrow>
          if resultCode \<noteq> OpOk P
          then (Some (Errorf data), s,
                [LogInfof task, WriteToConn task,
                 ReadFromConn task CreateDataPartitionDeadlineTime, LogError task])
          else (None, s,
                [LogInfof task, WriteToConn task,
                 ReadFromConn task CreateDataPartitionDeadlineTime, LogInfof task]))"

text \<open>
  \<open>sendTasks\<close>. \<open>net i\<close> is what the outside does at the \<open>i\<close>-th task of the batch
  (\<open>None\<close>: \<open>GetConnect\<close> fails) and \<open>clock i\<close> the Unix time read there.
\<close>

fun sendTasks_from ::
  "(nat \<Rightarrow> conn_io option) \<Rightarrow> (nat \<Rightarrow> int) \<Rightarrow> nat \<Rightarrow> addr list \<Rightarrow> sender \<Rightarrow>
   sender \<times> event list" where
  "sendTasks_from net clock i [] s = (s, [])"
| "sendTasks_from net clock i (task # tasks) s =
     (case net i of
        None \<Rightarrow>
          (updateTaskInfo task False (clock i) s,
           [GetConnect, WarnBySpecialUmpKey, PutConnect True])
      | Some io \<Rightarrow>
          (case sendAdminTask io (clock i) task s of
             (Some err, s1, es) \<Rightarrow>
               (case sendTasks_from net clock (Suc i) tasks (updateTaskInfo task True (clock i) s1) of
                  (s2, es2) \<Rightarrow> (s2, [GetConnect] @ es @ [LogError task, PutConnect True] @ es2))
           | (None, s1, es) \<Rightarrow>
               (case sendTasks_from net clock (Suc i) tasks s1 of
                  (s2, es2) \<Rightarrow> (s2, [GetConnect] @ es @ [PutConnect False] @ es2))))"

definition sendTasks ::
  "(nat \<Rightarrow> conn_io option) \<Rightarrow> (nat \<Rightarrow> int) \<Rightarrow> addr list \<Rightarrow> sender \<Rightarrow> sender \<times> event list" where
  "sendTasks net clock tasks s = sendTasks_from net clock 0 tasks s"

definition doSendTasks ::
  "proto_helpers \<Rightarrow> int \<Rightarrow> string list \<Rightarrow> string list \<Rightarrow> string list \<Rightarrow>
   (nat \<Rightarrow> conn_io option) \<Rightarrow> (nat \<Rightarrow> int) \<Rightarrow> sender \<Rightarrow> sender \<times> event list" where
  "doSendTasks P now ks1 ks2 ks3 net clock s =
     (case getNeedDealTask P now ks1 ks2 ks3 s of
        (tasks, s1) \<Rightarrow> if length tasks = 0 then (s1, [Sleep]) else sendTasks net clock tasks s1)"

text \<open>One tick of \<open>process\<close>: \<open>doDeleteTasks\<close>, then \<open>doSendTasks\<close>.\<close>

definition tick ::
  "proto_helpers \<Rightarrow> int \<Rightarrow> string list \<Rightarrow> int \<Rightarrow> string list \<Rightarrow> string list \<Rightarrow> string list \<Rightarrow>
   (nat \<Rightarrow> conn_io option) \<Rightarrow> (nat \<Rightarrow> int) \<Rightarrow> sender \<Rightarrow> sender \<times> event list" where
  "tick P now0 ks0 now ks1 ks2 ks3 net clock s =
     (case doDeleteTasks P now0 ks0 s of
        (s1, es1) \<Rightarrow>
          (case doSendTasks P now ks1 ks2 ks3 net clock s1 of (s2, es2) \<Rightarrow> (s2, es1 @ es2)))"

text \<open>The registry's invariant, which \<open>PutTask\<close> sets up: a task is filed under its own id.\<close>

definition reg_ok :: "sender \<Rightarrow> bool" where
  "reg_ok s \<longleftrightarrow> (\<forall>k t. TaskMap s k = Some t \<longrightarrow> ID (heap s t) = k)"

section \<open>Notions used to state the properties\<close>

text \<open>The hook called twice in a row on the same packet.\<close>

definition releaseTwice ::
  "pkt_helpers \<Rightarrow> Packet option \<Rightarrow> stores \<Rightarrow> go_panic + (Packet option \<times> stores)" where
  "releaseTwice H pkg st =
     (case releaseExtent H pkg st of
        Inl panic \<Rightarrow> Inl panic
      | Inr (pkg1, st1) \<Rightarrow> releaseExtent H pkg1 st1)"

text \<open>The tasks whose packet was written to a connection, in the order of the writes.\<close>

fun written :: "event list \<Rightarrow> addr list" where
  "written [] = []"
| "written (WriteToConn t # es) = t # written es"
| "written (e # es) = written es"

text \<open>The classes in the order of their priority.\<close>

fun class_rank :: "task_class \<Rightarrow> nat" where
  "class_rank Heartbeat = 0"
| "class_rank Urgent = 1"
| "class_rank Normal = 2"

text \<open>The class of the task at an address.\<close>

definition task_cls :: "proto_helpers \<Rightarrow> sender \<Rightarrow> addr \<Rightarrow> task_class" where
  "task_cls P s t = taskClass P (OpCode (heap s t))"

text \<open>What the sender did on the connection itself: the writes and the reads.\<close>

fun is_conn_io :: "event \<Rightarrow> bool" where
  "is_conn_io (WriteToConn t) = True"
| "is_conn_io (ReadFromConn t d) = True"
| "is_conn_io e = False"

definition conn_ops :: "event list \<Rightarrow> event list" where
  "conn_ops es = filter is_conn_io es"

section \<open>Example inputs\<close>

text \<open>
  A manager with two disks of 10 available bytes each, loaded one after the other, the
  first of which brought partition 7 back; a factory; and requests.
\<close>

definition ex_newDisk :: "string \<Rightarrow> uint64 \<Rightarrow> int \<Rightarrow> Disk" where
  "ex_newDisk path restSize maxErrs = \<lparr>Path = path, Available = 10\<rparr>"

definition ex_dp :: DataPartition where
  "ex_dp = \<lparr>dp_ID = 7, dp_Path = ''/d1/dp7'', dp_Disk = ''/d1''\<rparr>"

definition ex_space :: spaceManager where
  "ex_space = LoadDisk ex_newDisk [] ''/d2'' 0 0 (LoadDisk ex_newDisk [ex_dp] ''/d1'' 0 0 NewSpaceManager)"

definition ex_factory :: "dataPartitionCfg \<Rightarrow> Disk \<Rightarrow> string + DataPartition" where
  "ex_factory cfg d = Inr \<lparr>dp_ID = cfg_PartitionId cfg, dp_Path = Path d @ ''/dp'', dp_Disk = Path d\<rparr>"

definition ex_req :: "uint64 \<Rightarrow> int \<Rightarrow> CreateDataPartitionRequest" where
  "ex_req pid sz = \<lparr>PartitionId = pid, PartitionSize = sz, VolumeId = ''vol'', RandomWrite = False\<rparr>"

text \<open>
  Helpers for packets: tiny extents are 1 to 64, the write opcode is 3, master commands
  have opcode 96; and a forwarded write of the leader on tiny extent 5, not yet released,
  with a given \<open>Object\<close> and error flag.
\<close>

definition ex_H :: pkt_helpers where
  "ex_H = \<lparr>IsTinyExtent = (\<lambda>e. 1 \<le> e \<and> e \<le> 64),
           isLeaderPacket = (\<lambda>p. is_forward p),
           isWriteOperation = (\<lambda>p. Opcode p = 3),
           IsForwardPkg = is_forward,
           IsErrPacket = is_error,
           IsMasterCommand = (\<lambda>p. Opcode p = 96),
           TinyExtentMode = 0,
           HasReturnToStore = 1\<rparr>"

definition ex_pkt :: "object_value \<Rightarrow> bool \<Rightarrow> Packet" where
  "ex_pkt obj err = \<lparr>Opcode = 3, ExtentMode = 0, ExtentID = 5, IsRelase = 0, Object = obj,
                     NeedReply = True, is_error = err, is_forward = True\<rparr>"

definition ex_stores :: stores where
  "ex_stores = (\<lambda>_. \<lparr>AvaliCh = [], UnavaliCh = []\<rparr>)"

text \<open>
  Helpers for tasks, with the spec's two predicates (resend after 5, at most 5 sends,
  timeout 30), and a sender holding a normal, a heartbeat and an urgent task that wait
  to be sent, a task sent at time 40 and never answered, and a task that failed to
  connect five times.
\<close>

definition ex_P :: proto_helpers where
  "ex_P = \<lparr>taskClass = (\<lambda>op. if op = 1 \<or> op = 2 then Heartbeat else if op = 3 then Urgent else Normal),
           CheckTaskNeedSend = needs_send 5,
           CheckTaskTimeOut = timed_out 5 30,
           OpMetaNodeHeartbeat = 1, OpDataNodeHeartbeat = 2, OpOk = 240\<rparr>"

definition ex_task :: "string \<Rightarrow> 8 word \<Rightarrow> task_status \<Rightarrow> int \<Rightarrow> int \<Rightarrow> AdminTask" where
  "ex_task i op st t n = \<lparr>ID = i, OpCode = op, Status = st, SendTime = t, SendCount = n\<rparr>"

definition ex_heap :: "addr \<Rightarrow> AdminTask" where
  "ex_heap a =
     (if a = 0 then ex_task ''n1'' 9 TaskPending 0 0
      else if a = 1 then ex_task ''h1'' 1 TaskPending 0 0
      else if a = 2 then ex_task ''u1'' 3 TaskPending 0 0
      else if a = 3 then ex_task ''old'' 9 TaskRunning 40 1
      else ex_task ''dead'' 9 TaskPending 0 5)"

definition ex_empty :: sender where
  "ex_empty = \<lparr>clusterID = ''c1'', targetAddr = ''dn1'', TaskMap = Map.empty, heap = ex_heap\<rparr>"

definition ex_sender :: sender where
  "ex_sender = PutTask 4 (PutTask 3 (PutTask 2 (PutTask 1 (PutTask 0 ex_empty))))"

definition ex_keys :: "string list" where
  "ex_keys = [''n1'', ''old'', ''u1'', ''dead'', ''h1'']"

definition ex_net :: "nat \<Rightarrow> conn_io option" where
  "ex_net i = Some (Reply 240 [])"

definition ex_net_silent :: "nat \<Rightarrow> conn_io option" where
  "ex_net_silent i = Some ReadErr"

text \<open>A sender holding three normal tasks that wait to be sent.\<close>

definition ex_heap3 :: "addr \<Rightarrow> AdminTask" where
  "ex_heap3 a = ex_task (if a = 0 then ''n1'' else if a = 1 then ''n2'' else ''n3'') 9 TaskPending 0 0"

definition ex_sender3 :: sender where
  "ex_sender3 = PutTask 2 (PutTask 1 (PutTask 0
     \<lparr>clusterID = ''c1'', targetAddr = ''dn1'', TaskMap = Map.empty, heap = ex_heap3\<rparr>))"

definition ex_keys3 :: "string list" where
  "ex_keys3 = [''n1'', ''n2'', ''n3'']"

text \<open>A sender holding 31 urgent tasks and one normal task, all waiting to be sent.\<close>

definition ex_ids32 :: "string list" where
  "ex_ids32 =
    [''u0'', ''u1'', ''u2'', ''u3'', ''u4'', ''u5'', ''u6'', ''u7'',
     ''u8'', ''u9'', ''u10'', ''u11'', ''u12'', ''u13'', ''u14'', ''u15'',
     ''u16'', ''u17'', ''u18'', ''u19'', ''u20'', ''u21'', ''u22'', ''u23'',
     ''u24'', ''u25'', ''u26'', ''u27'', ''u28'', ''u29'', ''u30'', ''n31'']"

definition ex_addrs32 :: "addr list" where
  "ex_addrs32 =
    [0, 1, 2, 3, 4, 5, 6, 7, 8, 9, 10, 11, 12, 13, 14, 15,
     16, 17, 18, 19, 20, 21, 22, 23, 24, 25, 26, 27, 28, 29, 30, 31]"

definition ex_heap32 :: "addr \<Rightarrow> AdminTask" where
  "ex_heap32 a = ex_task (if a < 32 then ex_ids32 ! a else []) (if a < 31 then 3 else 9) TaskPending 0 0"

definition ex_sender32 :: sender where
  "ex_sender32 = \<lparr>clusterID = ''c1'', targetAddr = ''dn1'',
                   TaskMap = map_of (zip ex_ids32 ex_addrs32), heap = ex_heap32\<rparr>"

section \<open>The space manager: invariant and placement\<close>

lemma wf_space_New: "wf_space NewSpaceManager"
  by (simp add: wf_space_def NewSpaceManager_def)

lemma foldl_visitor_frame:
  "disks (foldl visitor space ps) = disks space \<and>
   diskList (foldl visitor space ps) = diskList space \<and>
   chooseIndex (foldl visitor space ps) = chooseIndex space"
  by (induction ps arbitrary: space) (auto simp: visitor_def split: option.splits)

text \<open>Loading a disk keeps the invariant, as long as \<open>NewDisk\<close> gives the disk the path asked for.\<close>

lemma wf_space_LoadDisk:
  assumes "wf_space space" and "Path (newDisk path restSize maxErrs) = path"
  shows "wf_space (LoadDisk newDisk restored path restSize maxErrs space)"
  using assms
  by (auto simp: wf_space_def LoadDisk_def GetDisk_def putDisk_def foldl_visitor_frame
      split: option.splits)

lemma getMin_wf:
  assumes "wf_space space" and "diskList space \<noteq> []"
  shows "\<exists>d i. getMinPartitionCntDisk space = Inr (Some d, space\<lparr>chooseIndex := i\<rparr>) \<and>
           d \<in> ran (disks space) \<and> 0 \<le> i"
proof -
  define idx where "idx = (if chooseIndex space \<ge> int (length (diskList space)) then 0
                 else chooseIndex space)"
  have r: "0 \<le> idx" "idx < int (length (diskList space))"
    using assms by (auto simp: idx_def wf_space_def)
  then have "diskList space ! nat idx \<in> set (diskList space)" by simp
  then have "diskList space ! nat idx \<in> dom (disks space)" using assms by (simp add: wf_space_def)
  then obtain d where d: "disks space (diskList space ! nat idx) = Some d" by auto
  then have "d \<in> ran (disks space)" by (auto simp: ran_def)
  with r d show ?thesis
    by (auto simp: getMinPartitionCntDisk_def idx_def Let_def)
qed

text \<open>
  When no disk fits, the loop calls the selector on every pass, ends with no disk, and
  has moved nothing but the cursor.
\<close>

lemma fitLoop_none_fits:
  assumes "wf_space space" and "diskList space \<noteq> []"
    and "\<forall>d \<in> ran (disks space). Available d < sz"
  shows "\<exists>i. fitLoop n sz space calls = Inr (None, space\<lparr>chooseIndex := i\<rparr>, calls + n) \<and> 0 \<le> i"
  using assms
proof (induction n arbitrary: space calls)
  case 0
  then show ?case by (auto simp: wf_space_def intro: exI[of _ "chooseIndex space"])
next
  case (Suc n)
  from getMin_wf[OF Suc.prems(1,2)] obtain d i where
    g: "getMinPartitionCntDisk space = Inr (Some d, space\<lparr>chooseIndex := i\<rparr>)"
    and d: "d \<in> ran (disks space)" and i: "0 \<le> i" by blast
  let ?s = "space\<lparr>chooseIndex := i\<rparr>"
  have wf: "wf_space ?s" using Suc.prems(1) i by (simp add: wf_space_def)
  have ne: "diskList ?s \<noteq> []" using Suc.prems(2) by simp
  have sm: "\<forall>d \<in> ran (disks ?s). Available d < sz" using Suc.prems(3) by simp
  from Suc.IH[OF wf ne sm, of "Suc calls"] obtain j where
    "fitLoop n sz ?s (Suc calls) = Inr (None, ?s\<lparr>chooseIndex := j\<rparr>, Suc calls + n)" "0 \<le> j"
    by blast
  with g d Suc.prems(3) show ?case by auto
qed

lemma card_dom_wf: "wf_space space \<Longrightarrow> card (dom (disks space)) = length (diskList space)"
  by (metis wf_space_def distinct_card)

lemma ex_space_eq:
  "ex_space = \<lparr>clusterId = [], disks = [''/d1'' \<mapsto> \<lparr>Path = ''/d1'', Available = 10\<rparr>, ''/d2'' \<mapsto> \<lparr>Path = ''/d2'', Available = 10\<rparr>],
     partitions = [7 \<mapsto> ex_dp], nodeId = 0, chooseIndex = 0, diskList = [''/d1'', ''/d2'']\<rparr>"
  by (simp add: ex_space_def LoadDisk_def GetDisk_def NewSpaceManager_def putDisk_def visitor_def ex_newDisk_def ex_dp_def)

lemma ex_wf: "wf_space ex_space"
  unfolding ex_space_def
  by (intro wf_space_LoadDisk wf_space_New) (simp_all add: ex_newDisk_def)

text \<open>
  Claim C4. When the partition id of the request (cut to 32 bits, as the code does) is
  already in the directory, \<open>CreatePartition\<close> returns the handle found there with no
  error, makes no selector call and leaves the whole manager as it was: nothing is
  inserted and the cursor stays. So a second call with the same request, after a first
  one that returned a handle carrying the requested id, returns the same handle and
  changes nothing.
\<close>

theorem CreatePartition_existing_id:
  "(partitions space (ucast (PartitionId request)) = Some dp \<longrightarrow>
      CreatePartition factory request space = Inr ((Some dp, None), space, 0)) \<and>
   (CreatePartition factory request space = Inr ((Some dp, None), space', n) \<and>
    dp_ID dp = ucast (PartitionId request) \<longrightarrow>
      CreatePartition factory request space' = Inr ((Some dp, None), space', 0))"
proof (intro conjI impI)
  assume "partitions space (ucast (PartitionId request)) = Some dp"
  then show "CreatePartition factory request space = Inr ((Some dp, None), space, 0)"
    by (simp add: CreatePartition_def)
next
  assume a: "CreatePartition factory request space = Inr ((Some dp, None), space', n) \<and>
    dp_ID dp = ucast (PartitionId request)"
  then have "partitions space' (ucast (PartitionId request)) = Some dp"
    by (auto simp: CreatePartition_def Let_def split: option.splits sum.splits prod.splits)
  then show "CreatePartition factory request space' = Inr ((Some dp, None), space', 0)"
    by (simp add: CreatePartition_def)
qed

theorem CreatePartition_existing_id_witness:
  "partitions ex_space (ucast (PartitionId (ex_req 7 100))) = Some ex_dp \<and>
   CreatePartition ex_factory (ex_req 7 100) ex_space = Inr ((Some ex_dp, None), ex_space, 0)"
  using CreatePartition_existing_id [of ex_space "ex_req 7 100" ex_dp ex_factory ex_space 0]
  by (simp add: ex_space_eq ex_req_def)

text \<open>
  Claim C6, amended. On a manager that satisfies its invariant, for a request whose
  partition id is not yet in the directory, when every registered disk has less
  available space than the requested size, \<open>CreatePartition\<close> calls the selector once
  per registered disk, fails with \<open>ErrNoDiskForCreatePartition\<close> and leaves everything
  but the cursor as it was, whatever the factory is: no partition is inserted and the
  factory is never reached.
\<close>

theorem CreatePartition_no_fit:
  assumes "wf_space space"
    and "partitions space (ucast (PartitionId request)) = None"
    and "\<forall>d \<in> ran (disks space). Available d < word_of_int (PartitionSize request)"
  shows "\<exists>i. CreatePartition factory request space =
           Inr ((None, Some ErrNoDiskForCreatePartition), space\<lparr>chooseIndex := i\<rparr>,
                card (dom (disks space)))"
proof (cases "diskList space = []")
  case True
  with assms(1) have "card (dom (disks space)) = 0" by (simp add: card_dom_wf)
  with assms(2) have "CreatePartition factory request space =
           Inr ((None, Some ErrNoDiskForCreatePartition), space\<lparr>chooseIndex := chooseIndex space\<rparr>,
                card (dom (disks space)))"
    by (simp add: CreatePartition_def)
  then show ?thesis by blast
next
  case False
  from fitLoop_none_fits[OF assms(1) False assms(3), of "card (dom (disks space))" 0]
  obtain i where "fitLoop (card (dom (disks space))) (word_of_int (PartitionSize request)) space 0 =
     Inr (None, space\<lparr>chooseIndex := i\<rparr>, card (dom (disks space)))" by auto
  with assms(2) show ?thesis by (auto simp: CreatePartition_def)
qed

text \<open>
  As stated, for every call, the claim fails: with partition 7 in the directory and both
  disks too small for the request, the call for id 7 returns the existing handle and no
  error.
\<close>

theorem CreatePartition_no_fit_counterexample:
  "wf_space ex_space \<and>
   ran (disks ex_space) = {\<lparr>Path = ''/d2'', Available = 10\<rparr>, \<lparr>Path = ''/d1'', Available = 10\<rparr>} \<and>
   (10 :: uint64) < word_of_int (PartitionSize (ex_req 7 100)) \<and>
   CreatePartition ex_factory (ex_req 7 100) ex_space = Inr ((Some ex_dp, None), ex_space, 0)"
  using ex_wf by (simp add: ex_space_eq ex_req_def CreatePartition_def)

theorem CreatePartition_no_fit_witness:
  "CreatePartition ex_factory (ex_req 8 100) ex_space =
     Inr ((None, Some ErrNoDiskForCreatePartition), ex_space\<lparr>chooseIndex := 2\<rparr>, 2) \<and>
   partitions (ex_space\<lparr>chooseIndex := 2\<rparr>) = partitions ex_space"
proof -
  have h2: "partitions ex_space (ucast (PartitionId (ex_req 8 100))) = None"
    by (simp add: ex_space_eq ex_req_def)
  have h3: "\<forall>d \<in> ran (disks ex_space). Available d < word_of_int (PartitionSize (ex_req 8 100))"
    by (simp add: ex_space_eq ex_req_def)
  from CreatePartition_no_fit [OF ex_wf h2 h3, of ex_factory]
  obtain i where r: "CreatePartition ex_factory (ex_req 8 100) ex_space =
     Inr ((None, Some ErrNoDiskForCreatePartition), ex_space\<lparr>chooseIndex := i\<rparr>,
                card (dom (disks ex_space)))" by blast
  have e: "CreatePartition ex_factory (ex_req 8 100) ex_space =
     Inr ((None, Some ErrNoDiskForCreatePartition), ex_space\<lparr>chooseIndex := 2\<rparr>, 2)"
    by (simp add: ex_space_eq ex_req_def CreatePartition_def getMinPartitionCntDisk_def)
  from r e show ?thesis by simp
qed

text \<open>
  Claim C7. After \<open>DeletePartition dpId\<close>, \<open>GetPartition dpId\<close> finds nothing; and
  when \<open>dpId\<close> is not in the directory, \<open>DeletePartition dpId\<close> leaves the manager as
  it was and touches no collaborator.
\<close>

theorem DeletePartition_then_absent:
  "GetPartition dpId (fst (DeletePartition dpId space)) = None \<and>
   (GetPartition dpId space = None \<longrightarrow> DeletePartition dpId space = (space, []))"
  by (simp add: DeletePartition_def GetPartition_def split: option.splits)

theorem DeletePartition_then_absent_witness:
  "GetPartition 7 (fst (DeletePartition 7 ex_space)) = None \<and>
   GetPartition 9 ex_space = None \<and> DeletePartition 9 ex_space = (ex_space, [])"
  using DeletePartition_then_absent [of 7 ex_space] DeletePartition_then_absent [of 9 ex_space]
  by (simp add: ex_space_eq GetPartition_def)

section \<open>The extent release hook\<close>

text \<open>
  The guards of \<open>releaseExtent\<close>: on a nil packet, on an extent id that is no tiny
  extent or is not positive, and on an \<open>Object\<close> that is the nil interface, the call
  returns with the packet and the stores as they were.
\<close>

lemma releaseExtent_guards:
  assumes "case pkg of None \<Rightarrow> True
           | Some p \<Rightarrow> \<not> IsTinyExtent H (ExtentID p) \<or> ExtentID p \<le> 0 \<or> Object p = NilObject"
  shows "releaseExtent H pkg st = Inr (pkg, st)"
  using assms by (auto simp: releaseExtent_def split: option.splits)

text \<open>
  Claim C10, at the failing input. The packet is a forwarded write of the leader in tiny
  extent mode, on a positive tiny extent id, not yet released, and its \<open>Object\<close> holds
  a nil \<open>*DataPartition\<close>: the back-reference is nil, but the interface is not, so the
  test \<open>pkg.Object == nil\<close> lets it pass and \<open>releaseExtent\<close> panics on the nil
  pointer instead of returning. \<open>addMetrics\<close>, on the same packet, tests the pointer
  after the assertion and returns.
\<close>

theorem releaseExtent_nil_partition_panics:
  "ExtentMode (ex_pkt (PartitionPtr None) False) = TinyExtentMode ex_H \<and>
   isLeaderPacket ex_H (ex_pkt (PartitionPtr None) False) \<and>
   isWriteOperation ex_H (ex_pkt (PartitionPtr None) False) \<and>
   IsForwardPkg ex_H (ex_pkt (PartitionPtr None) False) \<and>
   IsRelase (ex_pkt (PartitionPtr None) False) \<noteq> HasReturnToStore ex_H \<and>
   IsTinyExtent ex_H (ExtentID (ex_pkt (PartitionPtr None) False)) \<and>
   0 < ExtentID (ex_pkt (PartitionPtr None) False) \<and>
   Object (ex_pkt (PartitionPtr None) False) = PartitionPtr None \<and>
   releaseExtent ex_H (Some (ex_pkt (PartitionPtr None) False)) ex_stores =
     Inl NilPointerDereference \<and>
   addMetrics ex_H (ex_pkt (PartitionPtr None) False) = Inr True"
  by (simp add: releaseExtent_def addMetrics_def ex_pkt_def ex_H_def)

text \<open>So the hook called twice on that packet never gets to its second call.\<close>

theorem releaseExtent_nil_partition_panics_witness:
  "releaseTwice ex_H (Some (ex_pkt (PartitionPtr None) False)) ex_stores =
     Inl NilPointerDereference"
  using releaseExtent_nil_partition_panics by (simp add: releaseTwice_def)

text \<open>
  Claim C3, amended. For a packet in tiny extent mode that is a forwarded write of the
  leader with the release flag unset, and whose extent id is a positive tiny extent id
  and whose back-reference points to a partition, the first call returns, enqueues the
  extent id once, on the unavailable queue of the partition when the packet reports an
  error and on its available queue otherwise, and sets the flag; the second call
  returns and changes nothing, so the two calls together enqueue exactly once and leave
  every other partition's store alone.
\<close>

theorem releaseExtent_twice:
  assumes "ExtentMode p = TinyExtentMode H" and "isWriteOperation H p" and "IsForwardPkg H p"
    and "isLeaderPacket H p" and "IsRelase p \<noteq> HasReturnToStore H"
    and "IsTinyExtent H (ExtentID p)" and "0 < ExtentID p"
    and "Object p = PartitionPtr (Some part)"
  shows "\<exists>st'. st' = (if IsErrPacket H p then PutTinyExtentToUnavaliCh part (ExtentID p) st
                       else PutTinyExtentToAvaliCh part (ExtentID p) st) \<and>
           releaseExtent H (Some p) st = Inr (Some (p\<lparr>IsRelase := HasReturnToStore H\<rparr>), st') \<and>
           releaseTwice H (Some p) st = releaseExtent H (Some p) st \<and>
           AvaliCh (st' part) =
             (if IsErrPacket H p then AvaliCh (st part) else AvaliCh (st part) @ [ExtentID p]) \<and>
           UnavaliCh (st' part) =
             (if IsErrPacket H p then UnavaliCh (st part) @ [ExtentID p] else UnavaliCh (st part)) \<and>
           (\<forall>q. q \<noteq> part \<longrightarrow> st' q = st q)"
proof -
  let ?st = "if IsErrPacket H p then PutTinyExtentToUnavaliCh part (ExtentID p) st
             else PutTinyExtentToAvaliCh part (ExtentID p) st"
  have nz: "\<not> ExtentID p \<le> 0" using assms(7) by (simp add: not_le)
  have 1: "releaseExtent H (Some p) st = Inr (Some (p\<lparr>IsRelase := HasReturnToStore H\<rparr>), ?st)"
    using assms nz by (simp add: releaseExtent_def)
  have 2: "releaseTwice H (Some p) st = releaseExtent H (Some p) st"
    by (simp add: releaseTwice_def 1) (simp add: releaseExtent_def)
  have 3: "AvaliCh (?st part) =
             (if IsErrPacket H p then AvaliCh (st part) else AvaliCh (st part) @ [ExtentID p])"
    "UnavaliCh (?st part) =
             (if IsErrPacket H p then UnavaliCh (st part) @ [ExtentID p] else UnavaliCh (st part))"
    "\<forall>q. q \<noteq> part \<longrightarrow> ?st q = st q"
    by (simp_all add: PutTinyExtentToAvaliCh_def PutTinyExtentToUnavaliCh_def)
  from 1 2 3 show ?thesis by blast
qed

text \<open>
  With the five conditions of the claim alone the property fails: a packet that meets
  them all and has a nil back-reference is enqueued nowhere by two calls.
\<close>

theorem releaseExtent_twice_counterexample:
  "ExtentMode (ex_pkt NilObject False) = TinyExtentMode ex_H \<and>
   isWriteOperation ex_H (ex_pkt NilObject False) \<and> IsForwardPkg ex_H (ex_pkt NilObject False) \<and>
   isLeaderPacket ex_H (ex_pkt NilObject False) \<and>
   IsRelase (ex_pkt NilObject False) \<noteq> HasReturnToStore ex_H \<and>
   \<not> IsErrPacket ex_H (ex_pkt NilObject False) \<and>
   releaseTwice ex_H (Some (ex_pkt NilObject False)) ex_stores =
     Inr (Some (ex_pkt NilObject False), ex_stores) \<and>
   AvaliCh (ex_stores 0) = [] \<and> UnavaliCh (ex_stores 0) = []"
  by (simp add: releaseTwice_def releaseExtent_def ex_pkt_def ex_H_def ex_stores_def)

theorem releaseExtent_twice_witness:
  "(\<exists>pkg' st'. releaseTwice ex_H (Some (ex_pkt (PartitionPtr (Some 0)) False)) ex_stores =
       Inr (pkg', st') \<and> AvaliCh (st' 0) = [5] \<and> UnavaliCh (st' 0) = []) \<and>
   (\<exists>pkg' st'. releaseTwice ex_H (Some (ex_pkt (PartitionPtr (Some 0)) True)) ex_stores =
       Inr (pkg', st') \<and> AvaliCh (st' 0) = [] \<and> UnavaliCh (st' 0) = [5])"
proof -
  let ?p = "\<lambda>e. ex_pkt (PartitionPtr (Some 0)) e"
  have h: "ExtentMode (?p e) = TinyExtentMode ex_H" "isWriteOperation ex_H (?p e)"
    "IsForwardPkg ex_H (?p e)" "isLeaderPacket ex_H (?p e)"
    "IsRelase (?p e) \<noteq> HasReturnToStore ex_H" "IsTinyExtent ex_H (ExtentID (?p e))"
    "0 < ExtentID (?p e)" "Object (?p e) = PartitionPtr (Some 0)" for e
    by (simp_all add: ex_pkt_def ex_H_def)
  have v: "IsErrPacket ex_H (?p e) = e" "ExtentID (?p e) = 5"
    "AvaliCh (ex_stores 0) = []" "UnavaliCh (ex_stores 0) = []" for e
    by (simp_all add: ex_pkt_def ex_H_def ex_stores_def)
  from releaseExtent_twice [OF h, of False ex_stores] obtain s1 where
    a: "releaseExtent ex_H (Some (?p False)) ex_stores =
          Inr (Some ((?p False)\<lparr>IsRelase := HasReturnToStore ex_H\<rparr>), s1)"
       "releaseTwice ex_H (Some (?p False)) ex_stores = releaseExtent ex_H (Some (?p False)) ex_stores"
       "AvaliCh (s1 0) = [5]" "UnavaliCh (s1 0) = []"
    by (auto simp: v)
  from releaseExtent_twice [OF h, of True ex_stores] obtain s2 where
    b: "releaseExtent ex_H (Some (?p True)) ex_stores =
          Inr (Some ((?p True)\<lparr>IsRelase := HasReturnToStore ex_H\<rparr>), s2)"
       "releaseTwice ex_H (Some (?p True)) ex_stores = releaseExtent ex_H (Some (?p True)) ex_stores"
       "AvaliCh (s2 0) = []" "UnavaliCh (s2 0) = [5]"
    by (auto simp: v)
  from a b show ?thesis by auto
qed

section \<open>The admin task sender: the registry\<close>

text \<open>\<open>PutTask\<close> and \<open>DelTask\<close> keep every task filed under its own id.\<close>

lemma PutTask_reg_ok: "reg_ok s \<Longrightarrow> reg_ok (PutTask t s)"
  by (auto simp: reg_ok_def PutTask_def split: option.splits)

lemma DelTask_reg_ok: "reg_ok s \<Longrightarrow> reg_ok (fst (DelTask P t s))"
  by (auto simp: reg_ok_def DelTask_def split: option.splits)

lemma ex_sender_reg_ok: "reg_ok ex_sender"
  unfolding ex_sender_def by (intro PutTask_reg_ok) (simp add: reg_ok_def ex_empty_def)

lemma ex_sender_eq:
  "ex_sender = \<lparr>clusterID = ''c1'', targetAddr = ''dn1'',
      TaskMap = [''n1'' \<mapsto> 0, ''h1'' \<mapsto> 1, ''u1'' \<mapsto> 2, ''old'' \<mapsto> 3, ''dead'' \<mapsto> 4], heap = ex_heap\<rparr>"
  by (simp add: ex_sender_def PutTask_def ex_empty_def ex_heap_def ex_task_def)

lemma ex_heap_simps:
  "ex_heap 0 = ex_task ''n1'' 9 TaskPending 0 0"
  "ex_heap (Suc 0) = ex_task ''h1'' 1 TaskPending 0 0"
  "ex_heap 2 = ex_task ''u1'' 3 TaskPending 0 0"
  "ex_heap 3 = ex_task ''old'' 9 TaskRunning 40 1"
  "ex_heap 4 = ex_task ''dead'' 9 TaskPending 0 5"
  by (simp_all add: ex_heap_def)

lemma ex_sender3_eq:
  "ex_sender3 = \<lparr>clusterID = ''c1'', targetAddr = ''dn1'',
      TaskMap = [''n1'' \<mapsto> 0, ''n2'' \<mapsto> 1, ''n3'' \<mapsto> 2], heap = ex_heap3\<rparr>"
  by (simp add: ex_sender3_def PutTask_def ex_heap3_def ex_task_def)

lemma ex_deal3:
  "getNeedDealTask ex_P 100 ex_keys3 ex_keys3 ex_keys3 ex_sender3 = ([0, 1, 2], ex_sender3)"
  by (simp add: getNeedDealTask_def ex_keys3_def ex_sender3_eq ex_heap3_def ex_task_def ex_P_def
      IsHeartbeatTask_def IsUrgentTask_def needs_send_def MaxTaskLen_def Let_def)

lemma written_append: "written (xs @ ys) = written xs @ written ys"
  by (induction xs rule: written.induct) auto

lemma written_set: "t \<in> set (written es) \<longleftrightarrow> WriteToConn t \<in> set es"
  by (induction es rule: written.induct) auto

section \<open>The admin task sender: eviction\<close>

lemma getNeedDeleteTasks_acc:
  "getNeedDeleteTasks P now s ks delTasks es =
     (delTasks @ fst (getNeedDeleteTasks P now s ks [] []),
      es @ snd (getNeedDeleteTasks P now s ks [] []))"
proof (induction ks arbitrary: delTasks es)
  case Nil
  then show ?case by simp
next
  case (Cons k ks)
  show ?case
  proof (cases "TaskMap s k")
    case None
    then show ?thesis using Cons.IH[of delTasks es] by simp
  next
    case (Some t)
    show ?thesis
    proof (cases "CheckTaskTimeOut P now (heap s t)")
      case False
      then show ?thesis using Some Cons.IH[of delTasks es] by simp
    next
      case True
      let ?w = "[LogWarnf (ID (heap s t))] @ (if SendTime (heap s t) > 0 then [Warn (ID (heap s t))] else [])"
      have a: "getNeedDeleteTasks P now s ks (delTasks @ [t]) (es @ ?w) =
           ((delTasks @ [t]) @ fst (getNeedDeleteTasks P now s ks [] []),
            (es @ ?w) @ snd (getNeedDeleteTasks P now s ks [] []))"
        by (rule Cons.IH)
      have b: "getNeedDeleteTasks P now s ks ([] @ [t]) ([] @ ?w) =
           (([] @ [t]) @ fst (getNeedDeleteTasks P now s ks [] []),
            ([] @ ?w) @ snd (getNeedDeleteTasks P now s ks [] []))"
        by (rule Cons.IH)
      show ?thesis using Some True a b by simp
    qed
  qed
qed

lemma getNeedDeleteTasks_Cons:
  "getNeedDeleteTasks P now s (k # ks) [] [] =
     (case TaskMap s k of
        None \<Rightarrow> getNeedDeleteTasks P now s ks [] []
      | Some t \<Rightarrow>
          if CheckTaskTimeOut P now (heap s t)
          then (t # fst (getNeedDeleteTasks P now s ks [] []),
                LogWarnf (ID (heap s t)) #
                (if SendTime (heap s t) > 0 then [Warn (ID (heap s t))] else []) @
                snd (getNeedDeleteTasks P now s ks [] []))
          else getNeedDeleteTasks P now s ks [] [])"
proof (cases "TaskMap s k")
  case None
  then show ?thesis by simp
next
  case (Some t)
  show ?thesis
  proof (cases "CheckTaskTimeOut P now (heap s t)")
    case True
    let ?w = "[LogWarnf (ID (heap s t))] @ (if SendTime (heap s t) > 0 then [Warn (ID (heap s t))] else [])"
    have "getNeedDeleteTasks P now s ks ([] @ [t]) ([] @ ?w) =
           (([] @ [t]) @ fst (getNeedDeleteTasks P now s ks [] []),
            ([] @ ?w) @ snd (getNeedDeleteTasks P now s ks [] []))"
      by (rule getNeedDeleteTasks_acc)
    then show ?thesis using Some True by simp
  next
    case False
    then show ?thesis using Some by simp
  qed
qed

lemma expired_set:
  "set (fst (getNeedDeleteTasks P now s ks [] [])) =
     {t. \<exists>k \<in> set ks. TaskMap s k = Some t \<and> CheckTaskTimeOut P now (heap s t)}"
proof (induction ks)
  case Nil
  then show ?case by simp
next
  case (Cons k ks)
  then show ?case
    by (auto simp: getNeedDeleteTasks_Cons simp del: getNeedDeleteTasks.simps split: option.splits)
qed

lemma expired_warn_count:
  assumes "reg_ok s" and "distinct ks"
  shows "count_list (snd (getNeedDeleteTasks P now s ks [] [])) (Warn x) =
     (if x \<in> set ks then
        (case TaskMap s x of None \<Rightarrow> 0
         | Some t \<Rightarrow> if CheckTaskTimeOut P now (heap s t) \<and> SendTime (heap s t) > 0 then 1 else 0)
      else 0)"
  using assms(2)
proof (induction ks)
  case Nil
  then show ?case by simp
next
  case (Cons k ks)
  have id: "\<And>t. TaskMap s k = Some t \<Longrightarrow> ID (heap s t) = k"
    using assms(1) by (simp add: reg_ok_def)
  from Cons show ?case
    by (auto simp: getNeedDeleteTasks_Cons id simp del: getNeedDeleteTasks.simps split: option.splits)
qed

lemma DelTask_frame:
  "heap (fst (DelTask P t s)) = heap s \<and>
   TaskMap (fst (DelTask P t s)) = (TaskMap s)(ID (heap s t) := None) \<and>
   count_list (snd (DelTask P t s)) (Warn x) = 0 \<and>
   written (snd (DelTask P t s)) = []"
  by (auto simp: DelTask_def split: option.splits)

lemma DelTasks_frame:
  "heap (fst (DelTasks P ts s)) = heap s \<and>
   TaskMap (fst (DelTasks P ts s)) =
     (\<lambda>k. if k \<in> (\<lambda>t. ID (heap s t)) ` set ts then None else TaskMap s k) \<and>
   count_list (snd (DelTasks P ts s)) (Warn x) = 0 \<and>
   written (snd (DelTasks P ts s)) = []"
proof (induction ts arbitrary: s)
  case Nil
  then show ?case by simp
next
  case (Cons t ts)
  obtain s1 es1 where d: "DelTask P t s = (s1, es1)" by (cases "DelTask P t s")
  obtain s2 es2 where d2: "DelTasks P ts s1 = (s2, es2)" by (cases "DelTasks P ts s1")
  from DelTask_frame[of P t s x] d have f1: "heap s1 = heap s"
    "TaskMap s1 = (TaskMap s)(ID (heap s t) := None)" "count_list es1 (Warn x) = 0" "written es1 = []"
    by simp_all
  from Cons.IH[of s1] d2 have f2: "heap s2 = heap s1"
    "TaskMap s2 = (\<lambda>k. if k \<in> (\<lambda>t. ID (heap s1 t)) ` set ts then None else TaskMap s1 k)"
    "count_list es2 (Warn x) = 0" "written es2 = []"
    by simp_all
  have w: "written (es1 @ es2) = []" using f1(4) f2(4)
    by (induction es1 rule: written.induct) auto
  show ?case using d d2 f1 f2 w by (auto simp: fun_eq_iff)
qed

lemma getNeedDeleteTasks_written:
  "written (snd (getNeedDeleteTasks P now s ks [] [])) = []"
  by (induction ks)
     (auto simp: getNeedDeleteTasks_Cons written_append simp del: getNeedDeleteTasks.simps(2)
           split: option.splits)

lemma doDeleteTasks_effect:
  assumes "reg_ok s" and "distinct ks" and "set ks = dom (TaskMap s)"
  shows "TaskMap (fst (doDeleteTasks P now ks s)) =
           (\<lambda>k. case TaskMap s k of None \<Rightarrow> None
                 | Some t \<Rightarrow> if CheckTaskTimeOut P now (heap s t) then None else Some t)"
    and "heap (fst (doDeleteTasks P now ks s)) = heap s"
    and "count_list (snd (doDeleteTasks P now ks s)) (Warn x) =
           (case TaskMap s x of None \<Rightarrow> 0
            | Some t \<Rightarrow> if CheckTaskTimeOut P now (heap s t) \<and> SendTime (heap s t) > 0 then 1 else 0)"
    and "written (snd (doDeleteTasks P now ks s)) = []"
proof -
  obtain dels es where g: "getNeedDeleteTasks P now s ks [] [] = (dels, es)"
    by (cases "getNeedDeleteTasks P now s ks [] []")
  obtain s' es' where d: "DelTasks P dels s = (s', es')" by (cases "DelTasks P dels s")
  have dd: "doDeleteTasks P now ks s = (s', es @ es')" using g d by (simp add: doDeleteTasks_def)
  note f = DelTasks_frame[of P dels s x, unfolded d, simplified]
  have ds: "set dels = {t. \<exists>k \<in> set ks. TaskMap s k = Some t \<and> CheckTaskTimeOut P now (heap s t)}"
    using expired_set[of P now s ks] g by simp
  have id: "\<And>k t. TaskMap s k = Some t \<Longrightarrow> ID (heap s t) = k"
    using assms(1) by (simp add: reg_ok_def)
  have im: "k \<in> (\<lambda>t. ID (heap s t)) ` set dels \<longleftrightarrow>
        (\<exists>t. TaskMap s k = Some t \<and> CheckTaskTimeOut P now (heap s t))" for k
  proof
    assume "k \<in> (\<lambda>t. ID (heap s t)) ` set dels"
    then obtain t k' where "k = ID (heap s t)" "TaskMap s k' = Some t" "CheckTaskTimeOut P now (heap s t)"
      using ds by auto
    then show "\<exists>t. TaskMap s k = Some t \<and> CheckTaskTimeOut P now (heap s t)"
      using id by auto
  next
    assume "\<exists>t. TaskMap s k = Some t \<and> CheckTaskTimeOut P now (heap s t)"
    then obtain t where t: "TaskMap s k = Some t" "CheckTaskTimeOut P now (heap s t)" by blast
    then have "k \<in> set ks" using assms(3) by auto
    with t have "t \<in> set dels" using ds by auto
    moreover have "ID (heap s t) = k" using id t(1) by simp
    ultimately show "k \<in> (\<lambda>t. ID (heap s t)) ` set dels" by force
  qed
  show "TaskMap (fst (doDeleteTasks P now ks s)) =
           (\<lambda>k. case TaskMap s k of None \<Rightarrow> None
                 | Some t \<Rightarrow> if CheckTaskTimeOut P now (heap s t) then None else Some t)"
  proof
    fix k
    have "TaskMap s' k = (if k \<in> (\<lambda>t. ID (heap s t)) ` set dels then None else TaskMap s k)"
      using f by simp
    then show "TaskMap (fst (doDeleteTasks P now ks s)) k =
           (case TaskMap s k of None \<Rightarrow> None
                 | Some t \<Rightarrow> if CheckTaskTimeOut P now (heap s t) then None else Some t)"
      using im[of k] dd by (auto split: option.splits)
  qed
  show "heap (fst (doDeleteTasks P now ks s)) = heap s" using f dd by simp
  have "count_list es (Warn x) =
     (if x \<in> set ks then
        (case TaskMap s x of None \<Rightarrow> 0
         | Some t \<Rightarrow> if CheckTaskTimeOut P now (heap s t) \<and> SendTime (heap s t) > 0 then 1 else 0)
      else 0)"
    using expired_warn_count[OF assms(1,2), of P now x] g by simp
  moreover have "x \<notin> set ks \<Longrightarrow> TaskMap s x = None" using assms(3) by auto
  ultimately show "count_list (snd (doDeleteTasks P now ks s)) (Warn x) =
           (case TaskMap s x of None \<Rightarrow> 0
            | Some t \<Rightarrow> if CheckTaskTimeOut P now (heap s t) \<and> SendTime (heap s t) > 0 then 1 else 0)"
    using f dd by (auto split: option.splits)
  show "written (snd (doDeleteTasks P now ks s)) = []"
    using getNeedDeleteTasks_written[of P now s ks] g f dd by (simp add: written_append)
qed

section \<open>The admin task sender: the batch of a tick\<close>

lemma markLoop_shape:
  assumes "\<And>t. sel t \<Longrightarrow> taskClass P (OpCode t) = c"
  shows "\<exists>new. fst (markLoop sel now ks tasks s) = tasks @ new \<and>
           (\<forall>t \<in> set new. task_cls P s t = c \<and> t \<in> ran (TaskMap s)) \<and>
           TaskMap (snd (markLoop sel now ks tasks s)) = TaskMap s \<and>
           (\<forall>t. OpCode (heap (snd (markLoop sel now ks tasks s)) t) = OpCode (heap s t))"
proof (induction ks arbitrary: tasks s)
  case Nil
  then show ?case by simp
next
  case (Cons k ks)
  show ?case
  proof (cases "TaskMap s k")
    case None
    then show ?thesis using Cons.IH[of tasks s] by simp
  next
    case (Some t)
    show ?thesis
    proof (cases "sel (heap s t)")
      case False
      then show ?thesis using Some Cons.IH[of tasks s] by simp
    next
      case True
      let ?s = "s\<lparr>heap := (heap s)(t := (heap s t)\<lparr>SendTime := now,
                                                     SendCount := SendCount (heap s t) + 1\<rparr>)\<rparr>"
      have cls: "task_cls P ?s = task_cls P s" by (auto simp: task_cls_def fun_eq_iff)
      from Cons.IH[of "tasks @ [t]" ?s] obtain new where
        n: "fst (markLoop sel now ks (tasks @ [t]) ?s) = (tasks @ [t]) @ new"
        "\<forall>u \<in> set new. task_cls P ?s u = c \<and> u \<in> ran (TaskMap ?s)"
        "TaskMap (snd (markLoop sel now ks (tasks @ [t]) ?s)) = TaskMap ?s"
        "\<forall>u. OpCode (heap (snd (markLoop sel now ks (tasks @ [t]) ?s)) u) = OpCode (heap ?s u)"
        by blast
      have tc: "task_cls P s t = c" using assms[OF True] by (simp add: task_cls_def)
      have tr: "t \<in> ran (TaskMap s)" using Some by (auto simp: ran_def)
      have "fst (markLoop sel now (k # ks) tasks s) = tasks @ (t # new)"
        using Some True n(1) by simp
      moreover have "\<forall>u \<in> set (t # new). task_cls P s u = c \<and> u \<in> ran (TaskMap s)"
        using n(2) tc tr cls by simp
      moreover have "TaskMap (snd (markLoop sel now (k # ks) tasks s)) = TaskMap s"
        using Some True n(3) by simp
      moreover have "\<forall>u. OpCode (heap (snd (markLoop sel now (k # ks) tasks s)) u) = OpCode (heap s u)"
        using Some True n(4) by simp
      ultimately show ?thesis by blast
    qed
  qed
qed

lemma not_hb_urgent_normal:
  "\<not> IsHeartbeatTask P t \<Longrightarrow> \<not> IsUrgentTask P t \<Longrightarrow> taskClass P (OpCode t) = Normal"
  by (cases "taskClass P (OpCode t)") (auto simp: IsHeartbeatTask_def IsUrgentTask_def)

lemma normalLoop_shape:
  "\<exists>new. normalLoop P now s ks tasks = tasks @ new \<and>
          (\<forall>t \<in> set new. task_cls P s t = Normal \<and> t \<in> ran (TaskMap s))"
proof (induction ks arbitrary: tasks)
  case Nil
  then show ?case by simp
next
  case (Cons k ks)
  show ?case
  proof (cases "TaskMap s k")
    case None
    then show ?thesis using Cons.IH[of tasks] by simp
  next
    case (Some t)
    let ?c = "\<not> IsHeartbeatTask P (heap s t) \<and> \<not> IsUrgentTask P (heap s t) \<and>
                     CheckTaskNeedSend P now (heap s t)"
    show ?thesis
    proof (cases ?c)
      case False
      then show ?thesis using Some Cons.IH[of tasks] by (auto simp: Let_def)
    next
      case True
      have tc: "task_cls P s t = Normal" using True by (simp add: task_cls_def not_hb_urgent_normal)
      have tr: "t \<in> ran (TaskMap s)" using Some by (auto simp: ran_def)
      from Cons.IH[of "tasks @ [t]"] obtain new where
        n: "normalLoop P now s ks (tasks @ [t]) = (tasks @ [t]) @ new"
           "\<forall>u \<in> set new. task_cls P s u = Normal \<and> u \<in> ran (TaskMap s)" by blast
      show ?thesis
      proof (cases "length (tasks @ [t]) > MaxTaskLen")
        case True
        then have "normalLoop P now s (k # ks) tasks = tasks @ [t]"
          using Some \<open>?c\<close> by (simp add: Let_def)
        then show ?thesis using tc tr by auto
      next
        case False
        then have "normalLoop P now s (k # ks) tasks = tasks @ (t # new)"
          using Some \<open>?c\<close> n(1) by (simp add: Let_def)
        moreover have "\<forall>u \<in> set (t # new). task_cls P s u = Normal \<and> u \<in> ran (TaskMap s)"
          using n(2) tc tr by simp
        ultimately show ?thesis by blast
      qed
    qed
  qed
qed

lemma getNeedDealTask_shape:
  "\<exists>hs us ns. fst (getNeedDealTask P now ks1 ks2 ks3 s) = hs @ us @ ns \<and>
     (\<forall>t \<in> set hs. task_cls P s t = Heartbeat \<and> t \<in> ran (TaskMap s)) \<and>
     (\<forall>t \<in> set us. task_cls P s t = Urgent \<and> t \<in> ran (TaskMap s)) \<and>
     (\<forall>t \<in> set ns. task_cls P s t = Normal \<and> t \<in> ran (TaskMap s)) \<and>
     TaskMap (snd (getNeedDealTask P now ks1 ks2 ks3 s)) = TaskMap s"
proof -
  let ?selH = "\<lambda>t. IsHeartbeatTask P t \<and> CheckTaskNeedSend P now t"
  let ?selU = "\<lambda>t. IsUrgentTask P t \<and> CheckTaskNeedSend P now t"
  obtain t1 s1 where m1: "markLoop ?selH now ks1 [] s = (t1, s1)" by (cases "markLoop ?selH now ks1 [] s")
  obtain t2 s2 where m2: "markLoop ?selU now ks2 t1 s1 = (t2, s2)" by (cases "markLoop ?selU now ks2 t1 s1")
  have "\<And>t. ?selH t \<Longrightarrow> taskClass P (OpCode t) = Heartbeat" by (simp add: IsHeartbeatTask_def)
  from markLoop_shape[of ?selH P Heartbeat now ks1 "[]" s, OF this] m1
  obtain hs where h: "t1 = hs" "\<forall>t \<in> set hs. task_cls P s t = Heartbeat \<and> t \<in> ran (TaskMap s)"
    "TaskMap s1 = TaskMap s" "\<forall>t. OpCode (heap s1 t) = OpCode (heap s t)" by auto
  have c1: "task_cls P s1 = task_cls P s" using h(4) by (simp add: task_cls_def fun_eq_iff)
  have "\<And>t. ?selU t \<Longrightarrow> taskClass P (OpCode t) = Urgent" by (simp add: IsUrgentTask_def)
  from markLoop_shape[of ?selU P Urgent now ks2 t1 s1, OF this] m2
  obtain us where u: "t2 = t1 @ us" "\<forall>t \<in> set us. task_cls P s1 t = Urgent \<and> t \<in> ran (TaskMap s1)"
    "TaskMap s2 = TaskMap s1" "\<forall>t. OpCode (heap s2 t) = OpCode (heap s1 t)" by auto
  have c2: "task_cls P s2 = task_cls P s" using h(4) u(4) by (simp add: task_cls_def fun_eq_iff)
  from normalLoop_shape[of P now s2 ks3 t2]
  obtain ns where n: "normalLoop P now s2 ks3 t2 = t2 @ ns"
    "\<forall>t \<in> set ns. task_cls P s2 t = Normal \<and> t \<in> ran (TaskMap s2)" by blast
  have "fst (getNeedDealTask P now ks1 ks2 ks3 s) = hs @ us @ ns"
    using m1 m2 n(1) h(1) u(1) by (simp add: getNeedDealTask_def)
  moreover have "TaskMap (snd (getNeedDealTask P now ks1 ks2 ks3 s)) = TaskMap s"
    using m1 m2 h(3) u(3) by (simp add: getNeedDealTask_def)
  moreover have "\<forall>t \<in> set us. task_cls P s t = Urgent \<and> t \<in> ran (TaskMap s)"
    using u(2) c1 h(3) by simp
  moreover have "\<forall>t \<in> set ns. task_cls P s t = Normal \<and> t \<in> ran (TaskMap s)"
    using n(2) c2 u(3) h(3) by simp
  ultimately show ?thesis using h(2) by blast
qed

text \<open>
  A phase that selects nothing stamps nothing; so a batch that starts with a normal task
  was assembled without touching any task.
\<close>

lemma markLoop_extends:
  "\<exists>new. fst (markLoop sel now ks tasks s) = tasks @ new"
proof (induction ks arbitrary: tasks s)
  case Nil
  then show ?case by simp
next
  case (Cons k ks)
  show ?case
  proof (cases "TaskMap s k")
    case None
    then show ?thesis using Cons[of tasks s] by simp
  next
    case (Some t)
    let ?s = "s\<lparr>heap := (heap s)(t := (heap s t)\<lparr>SendTime := now,
                                                   SendCount := SendCount (heap s t) + 1\<rparr>)\<rparr>"
    from Cons[of "tasks @ [t]" ?s] obtain new where
      "fst (markLoop sel now ks (tasks @ [t]) ?s) = tasks @ (t # new)" by auto
    then show ?thesis using Some Cons[of tasks s] by (cases "sel (heap s t)") auto
  qed
qed

lemma markLoop_nothing_new:
  "fst (markLoop sel now ks tasks s) = tasks \<Longrightarrow> snd (markLoop sel now ks tasks s) = s"
proof (induction ks arbitrary: tasks s)
  case Nil
  then show ?case by simp
next
  case (Cons k ks)
  show ?case
  proof (cases "TaskMap s k")
    case None
    then show ?thesis using Cons by simp
  next
    case (Some t)
    show ?thesis
    proof (cases "sel (heap s t)")
      case False
      then show ?thesis using Some Cons by simp
    next
      case True
      let ?s = "s\<lparr>heap := (heap s)(t := (heap s t)\<lparr>SendTime := now,
                                                     SendCount := SendCount (heap s t) + 1\<rparr>)\<rparr>"
      obtain new where "fst (markLoop sel now ks (tasks @ [t]) ?s) = (tasks @ [t]) @ new"
        using markLoop_extends[of sel now ks "tasks @ [t]" ?s] by blast
      then have "fst (markLoop sel now (k # ks) tasks s) \<noteq> tasks" using Some True by simp
      then show ?thesis using Cons.prems by simp
    qed
  qed
qed

lemma normal_first_unstamped:
  assumes "getNeedDealTask P now ks1 ks2 ks3 s = (task # rest, s1)"
    and "task_cls P s task = Normal"
  shows "s1 = s"
proof -
  let ?selH = "\<lambda>t. IsHeartbeatTask P t \<and> CheckTaskNeedSend P now t"
  let ?selU = "\<lambda>t. IsUrgentTask P t \<and> CheckTaskNeedSend P now t"
  obtain t1 s' where m1: "markLoop ?selH now ks1 [] s = (t1, s')" by (cases "markLoop ?selH now ks1 [] s")
  obtain t2 s2 where m2: "markLoop ?selU now ks2 t1 s' = (t2, s2)" by (cases "markLoop ?selU now ks2 t1 s'")
  have e: "normalLoop P now s2 ks3 t2 = task # rest" "s1 = s2"
    using assms(1) m1 m2 by (auto simp: getNeedDealTask_def)
  have "\<And>t. ?selH t \<Longrightarrow> taskClass P (OpCode t) = Heartbeat" by (simp add: IsHeartbeatTask_def)
  from markLoop_shape[of ?selH P Heartbeat now ks1 "[]" s, OF this] m1
  have h: "\<forall>t \<in> set t1. task_cls P s t = Heartbeat" "\<forall>t. OpCode (heap s' t) = OpCode (heap s t)"
    by auto
  have c1: "task_cls P s' = task_cls P s" using h(2) by (simp add: task_cls_def fun_eq_iff)
  have "\<And>t. ?selU t \<Longrightarrow> taskClass P (OpCode t) = Urgent" by (simp add: IsUrgentTask_def)
  from markLoop_shape[of ?selU P Urgent now ks2 t1 s', OF this] m2
  obtain us where u: "t2 = t1 @ us" "\<forall>t \<in> set us. task_cls P s' t = Urgent" by auto
  obtain ns where n: "normalLoop P now s2 ks3 t2 = t2 @ ns" using normalLoop_shape[of P now s2 ks3 t2] by blast
  have f: "task # rest = t1 @ us @ ns" using e(1) n u(1) by simp
  have "t1 = []"
  proof (cases t1)
    case (Cons a as)
    then have "a = task" using f by simp
    then show ?thesis using h(1) Cons assms(2) by simp
  qed simp
  moreover have "us = []"
  proof (cases us)
    case (Cons a as)
    then have "a = task" using f \<open>t1 = []\<close> by simp
    then show ?thesis using u(2) Cons assms(2) c1 by simp
  qed simp
  ultimately have "fst (markLoop ?selH now ks1 [] s) = []" "fst (markLoop ?selU now ks2 [] s') = []"
    using m1 m2 u(1) by simp_all
  then have "s' = s" "s2 = s'"
    using markLoop_nothing_new[of ?selH now ks1 "[]" s] markLoop_nothing_new[of ?selU now ks2 "[]" s'] m1 m2
      \<open>t1 = []\<close>
    by simp_all
  then show ?thesis using e(2) by simp
qed

lemma sorted_wrt_const:
  "\<forall>x \<in> set xs. f x = (c::nat) \<Longrightarrow> sorted_wrt (\<lambda>a b. f a \<le> f b) xs"
  by (induction xs) auto

lemma batch_rank_sorted:
  "sorted_wrt (\<lambda>a b. class_rank (task_cls P s a) \<le> class_rank (task_cls P s b))
     (fst (getNeedDealTask P now ks1 ks2 ks3 s))"
proof -
  from getNeedDealTask_shape[of P now ks1 ks2 ks3 s] obtain hs us ns where
    "fst (getNeedDealTask P now ks1 ks2 ks3 s) = hs @ us @ ns"
    "\<forall>t \<in> set hs. task_cls P s t = Heartbeat \<and> t \<in> ran (TaskMap s)"
    "\<forall>t \<in> set us. task_cls P s t = Urgent \<and> t \<in> ran (TaskMap s)"
    "\<forall>t \<in> set ns. task_cls P s t = Normal \<and> t \<in> ran (TaskMap s)" by blast
  then show ?thesis
    by (simp add: sorted_wrt_append
        sorted_wrt_const[of hs "\<lambda>t. class_rank (task_cls P s t)" 0]
        sorted_wrt_const[of us "\<lambda>t. class_rank (task_cls P s t)" 1]
        sorted_wrt_const[of ns "\<lambda>t. class_rank (task_cls P s t)" 2])
qed

lemma batch_in_registry:
  "t \<in> set (fst (getNeedDealTask P now ks1 ks2 ks3 s)) \<Longrightarrow> t \<in> ran (TaskMap s)"
  using getNeedDealTask_shape[of P now ks1 ks2 ks3 s] by auto

lemma ex_deal:
  "fst (getNeedDealTask ex_P 100 ex_keys ex_keys ex_keys ex_sender) = [1, 2, 0, 3, 4]"
  by (simp add: getNeedDealTask_def ex_keys_def ex_sender_eq ex_heap_simps ex_task_def ex_P_def
      IsHeartbeatTask_def IsUrgentTask_def needs_send_def MaxTaskLen_def Let_def)

section \<open>The admin task sender: sending\<close>

lemma updateTaskInfo_TaskMap: "TaskMap (updateTaskInfo t c now s) = TaskMap s"
  by (simp add: updateTaskInfo_def Let_def)

lemma sendAdminTask_cases:
  "sendAdminTask io now t s = (e, s1, es) \<Longrightarrow>
     TaskMap s1 = TaskMap s \<and> (written es = [] \<or> written es = [t])"
  by (cases io) (auto simp: sendAdminTask_def updateTaskInfo_TaskMap)

lemma sendTasks_from_written:
  "subseq (written (snd (sendTasks_from net clock i tasks s))) tasks \<and>
   TaskMap (fst (sendTasks_from net clock i tasks s)) = TaskMap s"
proof (induction tasks arbitrary: i s)
  case Nil
  then show ?case by simp
next
  case (Cons t tasks)
  show ?case
  proof (cases "net i")
    case None
    then show ?thesis by (simp add: updateTaskInfo_TaskMap)
  next
    case (Some io)
    obtain e s1 es where sa: "sendAdminTask io (clock i) t s = (e, s1, es)"
      by (cases "sendAdminTask io (clock i) t s")
    note c = sendAdminTask_cases[OF sa]
    show ?thesis
    proof (cases e)
      case None
      obtain s2 es2 where r: "sendTasks_from net clock (Suc i) tasks s1 = (s2, es2)"
        by (cases "sendTasks_from net clock (Suc i) tasks s1")
      from Cons.IH[of "Suc i" s1] r have "subseq (written es2) tasks" "TaskMap s2 = TaskMap s1" by simp_all
      then show ?thesis using Some sa None r c by (auto simp: written_append)
    next
      case (Some err)
      let ?s = "updateTaskInfo t True (clock i) s1"
      obtain s2 es2 where r: "sendTasks_from net clock (Suc i) tasks ?s = (s2, es2)"
        by (cases "sendTasks_from net clock (Suc i) tasks ?s")
      from Cons.IH[of "Suc i" ?s] r have "subseq (written es2) tasks" "TaskMap s2 = TaskMap ?s" by simp_all
      then show ?thesis using \<open>net i = Some io\<close> sa Some r c
        by (auto simp: written_append updateTaskInfo_TaskMap)
    qed
  qed
qed

lemma subseq_sorted_wrt:
  "subseq xs ys \<Longrightarrow> sorted_wrt R ys \<Longrightarrow> sorted_wrt R xs"
proof (induction rule: list_emb.induct)
  case (list_emb_Nil ys)
  then show ?case by simp
next
  case (list_emb_Cons xs ys y)
  then show ?case by simp
next
  case (list_emb_Cons2 x y xs ys)
  then have "set xs \<subseteq> set ys" by (auto dest: list_emb_set)
  with list_emb_Cons2 show ?case by auto
qed

lemma rank_sorted_index:
  fixes f :: "'a \<Rightarrow> nat"
  assumes "sorted_wrt (\<lambda>a b. f a \<le> f b) xs" and "i < length xs" and "j < length xs"
    and "f (xs ! i) < f (xs ! j)"
  shows "i < j"
proof (rule ccontr)
  assume "\<not> i < j"
  then consider "j = i" | "j < i" by linarith
  then show False
  proof cases
    case 1
    then show ?thesis using assms(4) by simp
  next
    case 2
    from sorted_wrt_nth_less[OF assms(1) 2 assms(2)] assms(4) show ?thesis by simp
  qed
qed

lemma doSendTasks_written:
  "set (written (snd (doSendTasks P now ks1 ks2 ks3 net clock s))) \<subseteq> ran (TaskMap s) \<and>
   TaskMap (fst (doSendTasks P now ks1 ks2 ks3 net clock s)) = TaskMap s"
proof -
  obtain tasks s1 where g: "getNeedDealTask P now ks1 ks2 ks3 s = (tasks, s1)"
    by (cases "getNeedDealTask P now ks1 ks2 ks3 s")
  have tm: "TaskMap s1 = TaskMap s" using getNeedDealTask_shape[of P now ks1 ks2 ks3 s] g by auto
  have br: "set tasks \<subseteq> ran (TaskMap s)" using batch_in_registry[of _ P now ks1 ks2 ks3 s] g by auto
  show ?thesis
  proof (cases "length tasks = 0")
    case True
    then show ?thesis using g tm by (simp add: doSendTasks_def)
  next
    case False
    from sendTasks_from_written[of net clock 0 tasks s1]
    have "set (written (snd (sendTasks net clock tasks s1))) \<subseteq> set tasks"
      "TaskMap (fst (sendTasks net clock tasks s1)) = TaskMap s1"
      by (auto simp: sendTasks_def dest: list_emb_set)
    then show ?thesis using g tm br False by (auto simp: doSendTasks_def)
  qed
qed

lemma sendTasks_from_conn_ops:
  assumes "\<forall>j < length tasks. net (i + j) \<noteq> None \<and> net (i + j) \<noteq> Some MarshalErr \<and>
             net (i + j) \<noteq> Some WriteErr"
  shows "conn_ops (snd (sendTasks_from net clock i tasks s)) =
           concat (map (\<lambda>t. [WriteToConn t, ReadFromConn t ReadDeadlineTime]) tasks)"
  using assms
proof (induction tasks arbitrary: i s)
  case Nil
  then show ?case by (simp add: conn_ops_def)
next
  case (Cons t tasks)
  from Cons.prems have h0: "net i \<noteq> None \<and> net i \<noteq> Some MarshalErr \<and> net i \<noteq> Some WriteErr"
    by (metis add.right_neutral length_greater_0_conv list.distinct(1))
  have hs: "\<forall>j < length tasks. net (Suc i + j) \<noteq> None \<and> net (Suc i + j) \<noteq> Some MarshalErr \<and>
             net (Suc i + j) \<noteq> Some WriteErr"
    using Cons.prems by (metis add_Suc_shift length_Cons not_less_eq)
  note ih = Cons.IH[OF hs]
  from h0 obtain io where io: "net i = Some io" "io \<noteq> MarshalErr" "io \<noteq> WriteErr" by auto
  show ?case
  proof (cases io)
    case ReadErr
    then show ?thesis using io ih[of "updateTaskInfo t True (clock i) s"]
      by (auto simp: sendAdminTask_def conn_ops_def split: prod.splits)
  next
    case (Reply rc d)
    then show ?thesis using io ih[of "updateTaskInfo t True (clock i) s"]
      by (auto simp: sendAdminTask_def conn_ops_def split: prod.splits)
  qed (use io in simp_all)
qed

text \<open>
  What a send does on the connection. \<open>sendAdminTask\<close> writes the packet once it is
  built and, when the write went through, reads a reply under \<open>ReadDeadlineTime\<close>;
  any reply ends the send with no error, whatever its result code. So a batch whose
  packets are all built and written shows a write followed by a read for each task in
  turn. \<open>syncCreatePartition\<close> does the same under
  \<open>CreateDataPartitionDeadlineTime\<close> and returns no error exactly when the result
  code is \<open>OpOk\<close>.
\<close>

lemma conn_ops_of_send:
  "((\<forall>i < length tasks. net i \<noteq> None \<and> net i \<noteq> Some MarshalErr \<and> net i \<noteq> Some WriteErr) \<longrightarrow>
      conn_ops (snd (sendTasks net clock tasks s)) =
        concat (map (\<lambda>t. [WriteToConn t, ReadFromConn t ReadDeadlineTime]) tasks)) \<and>
   conn_ops (snd (snd (sendAdminTask io now t s))) =
     (case io of MarshalErr \<Rightarrow> [] | WriteErr \<Rightarrow> [WriteToConn t]
      | ReadErr \<Rightarrow> [WriteToConn t, ReadFromConn t ReadDeadlineTime]
      | Reply rc d \<Rightarrow> [WriteToConn t, ReadFromConn t ReadDeadlineTime]) \<and>
   fst (sendAdminTask (Reply rc' d') now t s) = None \<and>
   conn_ops (snd (snd (syncCreatePartition P io t s))) =
     (case io of MarshalErr \<Rightarrow> [] | WriteErr \<Rightarrow> [WriteToConn t]
      | ReadErr \<Rightarrow> [WriteToConn t, ReadFromConn t CreateDataPartitionDeadlineTime]
      | Reply rc d \<Rightarrow> [WriteToConn t, ReadFromConn t CreateDataPartitionDeadlineTime]) \<and>
   (fst (syncCreatePartition P (Reply rc' d') t s) = None \<longleftrightarrow> rc' = OpOk P)"
proof -
  have a: "(\<forall>i < length tasks. net i \<noteq> None \<and> net i \<noteq> Some MarshalErr \<and> net i \<noteq> Some WriteErr) \<longrightarrow>
      conn_ops (snd (sendTasks net clock tasks s)) =
        concat (map (\<lambda>t. [WriteToConn t, ReadFromConn t ReadDeadlineTime]) tasks)"
    using sendTasks_from_conn_ops[of tasks net 0 clock s] by (simp add: sendTasks_def)
  have b: "conn_ops (snd (snd (sendAdminTask io now t s))) =
     (case io of MarshalErr \<Rightarrow> [] | WriteErr \<Rightarrow> [WriteToConn t]
      | ReadErr \<Rightarrow> [WriteToConn t, ReadFromConn t ReadDeadlineTime]
      | Reply rc d \<Rightarrow> [WriteToConn t, ReadFromConn t ReadDeadlineTime])"
    by (cases io) (simp_all add: sendAdminTask_def conn_ops_def)
  have c: "fst (sendAdminTask (Reply rc' d') now t s) = None" by (simp add: sendAdminTask_def)
  have d: "conn_ops (snd (snd (syncCreatePartition P io t s))) =
     (case io of MarshalErr \<Rightarrow> [] | WriteErr \<Rightarrow> [WriteToConn t]
      | ReadErr \<Rightarrow> [WriteToConn t, ReadFromConn t CreateDataPartitionDeadlineTime]
      | Reply rc d \<Rightarrow> [WriteToConn t, ReadFromConn t CreateDataPartitionDeadlineTime])"
    by (cases io) (simp_all add: syncCreatePartition_def conn_ops_def)
  have e: "fst (syncCreatePartition P (Reply rc' d') t s) = None \<longleftrightarrow> rc' = OpOk P"
    by (simp add: syncCreatePartition_def)
  from a b c d e show ?thesis by blast
qed

text \<open>
  Claim C1, at the failing input. The registry holds three normal tasks that wait to be
  sent, none of them a create-partition call made through \<open>syncCreatePartition\<close>, and
  every connection is acquired. In one tick \<open>sendTasks\<close> writes each packet and then
  reads a reply on the same connection under \<open>ReadDeadlineTime\<close>: where the node
  answers, and also where it sends nothing back, in which case the read fails, the
  error is logged and the connection is closed. The sender's own header comment says
  that the sender only sends the command, and the claim says that no reply is read
  inline.
\<close>

theorem sendTasks_reads_reply_inline:
  "map (task_cls ex_P ex_sender3) [0, 1, 2] = [Normal, Normal, Normal] \<and>
   snd (doSendTasks ex_P 100 ex_keys3 ex_keys3 ex_keys3 ex_net (\<lambda>i. 100) ex_sender3) =
     [GetConnect, WriteToConn 0, ReadFromConn 0 ReadDeadlineTime, LogDebugf 0, PutConnect False,
      GetConnect, WriteToConn 1, ReadFromConn 1 ReadDeadlineTime, LogDebugf 1, PutConnect False,
      GetConnect, WriteToConn 2, ReadFromConn 2 ReadDeadlineTime, LogDebugf 2, PutConnect False] \<and>
   snd (doSendTasks ex_P 100 ex_keys3 ex_keys3 ex_keys3 ex_net_silent (\<lambda>i. 100) ex_sender3) =
     [GetConnect, WriteToConn 0, ReadFromConn 0 ReadDeadlineTime, LogError 0, PutConnect True,
      GetConnect, WriteToConn 1, ReadFromConn 1 ReadDeadlineTime, LogError 1, PutConnect True,
      GetConnect, WriteToConn 2, ReadFromConn 2 ReadDeadlineTime, LogError 2, PutConnect True]"
proof -
  have c: "map (task_cls ex_P ex_sender3) [0, 1, 2] = [Normal, Normal, Normal]"
    by (simp add: task_cls_def ex_sender3_eq ex_heap3_def ex_task_def ex_P_def)
  have a: "snd (doSendTasks ex_P 100 ex_keys3 ex_keys3 ex_keys3 ex_net (\<lambda>i. 100) ex_sender3) =
     [GetConnect, WriteToConn 0, ReadFromConn 0 ReadDeadlineTime, LogDebugf 0, PutConnect False,
      GetConnect, WriteToConn 1, ReadFromConn 1 ReadDeadlineTime, LogDebugf 1, PutConnect False,
      GetConnect, WriteToConn 2, ReadFromConn 2 ReadDeadlineTime, LogDebugf 2, PutConnect False]"
    by (simp add: doSendTasks_def sendTasks_def sendAdminTask_def ex_net_def ex_deal3)
  have b: "snd (doSendTasks ex_P 100 ex_keys3 ex_keys3 ex_keys3 ex_net_silent (\<lambda>i. 100) ex_sender3) =
     [GetConnect, WriteToConn 0, ReadFromConn 0 ReadDeadlineTime, LogError 0, PutConnect True,
      GetConnect, WriteToConn 1, ReadFromConn 1 ReadDeadlineTime, LogError 1, PutConnect True,
      GetConnect, WriteToConn 2, ReadFromConn 2 ReadDeadlineTime, LogError 2, PutConnect True]"
    by (simp add: doSendTasks_def sendTasks_def sendAdminTask_def ex_net_silent_def ex_deal3)
  from c a b show ?thesis by blast
qed

text \<open>
  Claim C2. In the batch \<open>getNeedDealTask\<close> assembles, a task of a class of higher
  priority stands before every task of a class of lower priority: heartbeat before
  urgent before normal. The tasks \<open>sendTasks\<close> writes to a connection are written in
  the order of the batch (they are a subsequence of it), so the same holds of the writes.
  This holds of every tick, also of one with no heartbeat task. The classes are the three
  the spec derives from the opcode, measured on the sender the tick started from.
\<close>

theorem batch_priority_order:
  assumes "getNeedDealTask P now ks1 ks2 ks3 s = (tasks, s1)"
    and "sendTasks net clock tasks s1 = (s2, es)"
  shows "(\<forall>i j. i < length tasks \<and> j < length tasks \<and>
            class_rank (task_cls P s (tasks ! i)) < class_rank (task_cls P s (tasks ! j))
            \<longrightarrow> i < j) \<and>
         subseq (written es) tasks \<and>
         (\<forall>i j. i < length (written es) \<and> j < length (written es) \<and>
            class_rank (task_cls P s (written es ! i)) < class_rank (task_cls P s (written es ! j))
            \<longrightarrow> i < j)"
proof -
  let ?R = "\<lambda>a b. class_rank (task_cls P s a) \<le> class_rank (task_cls P s b)"
  have st: "sorted_wrt ?R tasks"
    using batch_rank_sorted[of P s now ks1 ks2 ks3] assms(1) by simp
  have sub: "subseq (written es) tasks"
    using sendTasks_from_written[of net clock 0 tasks s1] assms(2) by (simp add: sendTasks_def)
  have sw: "sorted_wrt ?R (written es)" by (rule subseq_sorted_wrt[OF sub st])
  show ?thesis
    using rank_sorted_index[OF st] rank_sorted_index[OF sw] sub by blast
qed

theorem batch_priority_order_witness:
  "fst (getNeedDealTask ex_P 100 ex_keys ex_keys ex_keys ex_sender) = [1, 2, 0, 3, 4] \<and>
   map (task_cls ex_P ex_sender) [1, 2, 0, 3, 4] = [Heartbeat, Urgent, Normal, Normal, Normal] \<and>
   written (snd (sendTasks ex_net (\<lambda>i. 100) [1, 2, 0, 3, 4]
                   (snd (getNeedDealTask ex_P 100 ex_keys ex_keys ex_keys ex_sender)))) =
     [1, 2, 0, 3, 4]"
proof -
  let ?g = "getNeedDealTask ex_P 100 ex_keys ex_keys ex_keys ex_sender"
  have g: "?g = ([1, 2, 0, 3, 4], snd ?g)" using ex_deal by (metis prod.collapse)
  obtain s2 es where s: "sendTasks ex_net (\<lambda>i. 100) [1, 2, 0, 3, 4] (snd ?g) = (s2, es)"
    by (cases "sendTasks ex_net (\<lambda>i. 100) [1, 2, 0, 3, 4] (snd ?g)")
  note o = batch_priority_order [OF g s]
  have w: "written es = [1, 2, 0, 3, 4]"
    using s by (auto simp: sendTasks_def sendAdminTask_def ex_net_def split: prod.splits)
  have c: "map (task_cls ex_P ex_sender) [1, 2, 0, 3, 4] = [Heartbeat, Urgent, Normal, Normal, Normal]"
    by (simp add: task_cls_def ex_sender_eq ex_heap_simps ex_task_def ex_P_def)
  from o w c ex_deal s show ?thesis by simp
qed

text \<open>
  Claim C5, amended. In a tick whose batch is not empty and where \<open>GetConnect\<close> fails
  at the first task, the send step makes that one attempt to connect, raises the
  special-key warning, hands the connection back to be closed and stops: nothing is
  written and no further task is attempted. Measured from the sender as the assembly of
  the batch left it, the first task's \<open>SendCount\<close> goes up by one while its
  \<open>SendTime\<close> and \<open>Status\<close> stay, and every other task and the registry are
  untouched. When the first task is a normal task, the assembly has stamped nothing, so
  these are the changes since the batch was drawn.
\<close>

theorem connect_failure_halts_batch:
  assumes "getNeedDealTask P now ks1 ks2 ks3 s = (task # rest, s1)" and "net 0 = None"
  shows "doSendTasks P now ks1 ks2 ks3 net clock s =
           (s1\<lparr>heap := (heap s1)(task := (heap s1 task)\<lparr>SendCount := SendCount (heap s1 task) + 1\<rparr>)\<rparr>,
            [GetConnect, WarnBySpecialUmpKey, PutConnect True]) \<and>
         count_list (snd (doSendTasks P now ks1 ks2 ks3 net clock s)) GetConnect = 1 \<and>
         written (snd (doSendTasks P now ks1 ks2 ks3 net clock s)) = [] \<and>
         WarnBySpecialUmpKey \<in> set (snd (doSendTasks P now ks1 ks2 ks3 net clock s)) \<and>
         SendCount (heap (fst (doSendTasks P now ks1 ks2 ks3 net clock s)) task) =
           SendCount (heap s1 task) + 1 \<and>
         SendTime (heap (fst (doSendTasks P now ks1 ks2 ks3 net clock s)) task) =
           SendTime (heap s1 task) \<and>
         Status (heap (fst (doSendTasks P now ks1 ks2 ks3 net clock s)) task) =
           Status (heap s1 task) \<and>
         (\<forall>u. u \<noteq> task \<longrightarrow>
            heap (fst (doSendTasks P now ks1 ks2 ks3 net clock s)) u = heap s1 u) \<and>
         TaskMap (fst (doSendTasks P now ks1 ks2 ks3 net clock s)) = TaskMap s1 \<and>
         (task_cls P s task = Normal \<longrightarrow> s1 = s)"
proof -
  have e: "doSendTasks P now ks1 ks2 ks3 net clock s =
           (s1\<lparr>heap := (heap s1)(task := (heap s1 task)\<lparr>SendCount := SendCount (heap s1 task) + 1\<rparr>)\<rparr>,
            [GetConnect, WarnBySpecialUmpKey, PutConnect True])"
    using assms by (simp add: doSendTasks_def sendTasks_def updateTaskInfo_def)
  have n: "task_cls P s task = Normal \<longrightarrow> s1 = s"
    using normal_first_unstamped[OF assms(1)] by blast
  show ?thesis unfolding e using n by simp
qed

text \<open>
  Measured from the start of the tick the claim fails when the batch starts with a
  heartbeat task: the assembly has stamped it (and the urgent task behind it) before the
  connection is tried, so after the failed connect its \<open>SendCount\<close> has gone up by two
  and its \<open>SendTime\<close> is the time of the tick.
\<close>

theorem connect_failure_halts_batch_counterexample:
  "fst (getNeedDealTask ex_P 100 ex_keys ex_keys ex_keys ex_sender) = [1, 2, 0, 3, 4] \<and>
   SendCount (heap ex_sender 1) = 0 \<and> SendTime (heap ex_sender 1) = 0 \<and>
   SendCount (heap ex_sender 2) = 0 \<and> SendTime (heap ex_sender 2) = 0 \<and>
   SendCount (heap (fst (doSendTasks ex_P 100 ex_keys ex_keys ex_keys (\<lambda>i. None) (\<lambda>i. 100) ex_sender)) 1) = 2 \<and>
   SendTime (heap (fst (doSendTasks ex_P 100 ex_keys ex_keys ex_keys (\<lambda>i. None) (\<lambda>i. 100) ex_sender)) 1) = 100 \<and>
   SendCount (heap (fst (doSendTasks ex_P 100 ex_keys ex_keys ex_keys (\<lambda>i. None) (\<lambda>i. 100) ex_sender)) 2) = 1 \<and>
   SendTime (heap (fst (doSendTasks ex_P 100 ex_keys ex_keys ex_keys (\<lambda>i. None) (\<lambda>i. 100) ex_sender)) 2) = 100"
  by (simp add: doSendTasks_def sendTasks_def updateTaskInfo_def
      getNeedDealTask_def ex_keys_def ex_sender_eq ex_heap_simps ex_task_def ex_P_def
      IsHeartbeatTask_def IsUrgentTask_def needs_send_def MaxTaskLen_def Let_def)

theorem connect_failure_halts_batch_witness:
  "doSendTasks ex_P 100 ex_keys3 ex_keys3 ex_keys3 (\<lambda>i. None) (\<lambda>i. 100) ex_sender3 =
     (ex_sender3\<lparr>heap := ex_heap3(0 := ex_task ''n1'' 9 TaskPending 0 1)\<rparr>,
      [GetConnect, WarnBySpecialUmpKey, PutConnect True]) \<and>
   heap (fst (doSendTasks ex_P 100 ex_keys3 ex_keys3 ex_keys3 (\<lambda>i. None) (\<lambda>i. 100) ex_sender3)) 1 =
     ex_heap3 1 \<and>
   heap (fst (doSendTasks ex_P 100 ex_keys3 ex_keys3 ex_keys3 (\<lambda>i. None) (\<lambda>i. 100) ex_sender3)) 2 =
     ex_heap3 2"
proof -
  have h: "heap ex_sender3 = ex_heap3" by (simp add: ex_sender3_eq)
  have t: "(ex_heap3 0)\<lparr>SendCount := SendCount (ex_heap3 0) + 1\<rparr> = ex_task ''n1'' 9 TaskPending 0 1"
    by (simp add: ex_heap3_def ex_task_def)
  from connect_failure_halts_batch [OF ex_deal3, of "\<lambda>i. None" "\<lambda>i. 100", THEN conjunct1]
  show ?thesis by (simp add: h t)
qed

text \<open>
  Claim C8. In a tick on a registry that files every task under its own id, with the
  map ranged over once per key: after the tick the registry holds exactly the entries
  whose task was not timed out when the tick began; \<open>doDeleteTasks\<close> raises the
  operator's warning once for every timed-out task that had been sent (\<open>SendTime > 0\<close>)
  and for no other id; and no packet is written in that tick for a task that was timed
  out, so an evicted task is not sent again. The tick hands back the sender and what it
  did, and no error: the timeout reaches no caller.
\<close>

theorem tick_evicts_timed_out:
  assumes "reg_ok s" and "distinct ks0" and "set ks0 = dom (TaskMap s)"
  shows "(\<forall>k. TaskMap (fst (tick P now0 ks0 now ks1 ks2 ks3 net clock s)) k =
            (case TaskMap s k of None \<Rightarrow> None
             | Some t \<Rightarrow> if CheckTaskTimeOut P now0 (heap s t) then None else Some t)) \<and>
         (\<forall>x. count_list (snd (doDeleteTasks P now0 ks0 s)) (Warn x) =
            (case TaskMap s x of None \<Rightarrow> 0
             | Some t \<Rightarrow> if CheckTaskTimeOut P now0 (heap s t) \<and> SendTime (heap s t) > 0
                         then 1 else 0)) \<and>
         (\<forall>t. WriteToConn t \<in> set (snd (tick P now0 ks0 now ks1 ks2 ks3 net clock s)) \<longrightarrow>
            (\<exists>k. TaskMap s k = Some t \<and> \<not> CheckTaskTimeOut P now0 (heap s t)))"
proof -
  obtain s1 es1 where d: "doDeleteTasks P now0 ks0 s = (s1, es1)" by (cases "doDeleteTasks P now0 ks0 s")
  obtain s2 es2 where e: "doSendTasks P now ks1 ks2 ks3 net clock s1 = (s2, es2)"
    by (cases "doSendTasks P now ks1 ks2 ks3 net clock s1")
  have t: "tick P now0 ks0 now ks1 ks2 ks3 net clock s = (s2, es1 @ es2)"
    using d e by (simp add: tick_def)
  note de = doDeleteTasks_effect[OF assms, of P now0]
  have tm1: "TaskMap s1 = (\<lambda>k. case TaskMap s k of None \<Rightarrow> None
                 | Some t \<Rightarrow> if CheckTaskTimeOut P now0 (heap s t) then None else Some t)"
    using de(1) d by simp
  have w1: "written es1 = []" using de(4) d by simp
  from doSendTasks_written[of P now ks1 ks2 ks3 net clock s1] e
  have w2: "set (written es2) \<subseteq> ran (TaskMap s1)" and tm2: "TaskMap s2 = TaskMap s1" by simp_all
  have a: "\<forall>k. TaskMap (fst (tick P now0 ks0 now ks1 ks2 ks3 net clock s)) k =
            (case TaskMap s k of None \<Rightarrow> None
             | Some t \<Rightarrow> if CheckTaskTimeOut P now0 (heap s t) then None else Some t)"
    using t tm1 tm2 by simp
  have b: "\<forall>x. count_list (snd (doDeleteTasks P now0 ks0 s)) (Warn x) =
            (case TaskMap s x of None \<Rightarrow> 0
             | Some t \<Rightarrow> if CheckTaskTimeOut P now0 (heap s t) \<and> SendTime (heap s t) > 0
                         then 1 else 0)"
    using de(3) by simp
  have c: "\<forall>t. WriteToConn t \<in> set (snd (tick P now0 ks0 now ks1 ks2 ks3 net clock s)) \<longrightarrow>
            (\<exists>k. TaskMap s k = Some t \<and> \<not> CheckTaskTimeOut P now0 (heap s t))"
  proof (intro allI impI)
    fix u assume "WriteToConn u \<in> set (snd (tick P now0 ks0 now ks1 ks2 ks3 net clock s))"
    then have "u \<in> set (written (es1 @ es2))" using t by (simp add: written_set)
    then have "u \<in> set (written es2)" using w1 by (simp add: written_append)
    then have "u \<in> ran (TaskMap s1)" using w2 by auto
    then obtain k where "TaskMap s1 k = Some u" by (auto simp: ran_def)
    then show "\<exists>k. TaskMap s k = Some u \<and> \<not> CheckTaskTimeOut P now0 (heap s u)"
      unfolding tm1 by (auto split: option.splits if_splits)
  qed
  from a b c show ?thesis by blast
qed

theorem tick_evicts_timed_out_witness:
  "TaskMap (fst (tick ex_P 100 ex_keys 100 ex_keys ex_keys ex_keys ex_net (\<lambda>i. 100) ex_sender)) ''old'' = None \<and>
   TaskMap (fst (tick ex_P 100 ex_keys 100 ex_keys ex_keys ex_keys ex_net (\<lambda>i. 100) ex_sender)) ''dead'' = None \<and>
   TaskMap (fst (tick ex_P 100 ex_keys 100 ex_keys ex_keys ex_keys ex_net (\<lambda>i. 100) ex_sender)) ''n1'' = Some 0 \<and>
   count_list (snd (doDeleteTasks ex_P 100 ex_keys ex_sender)) (Warn ''old'') = 1 \<and>
   count_list (snd (doDeleteTasks ex_P 100 ex_keys ex_sender)) (Warn ''dead'') = 0 \<and>
   count_list (snd (doDeleteTasks ex_P 100 ex_keys ex_sender)) (Warn ''n1'') = 0"
proof -
  have d: "distinct ex_keys" by (simp add: ex_keys_def)
  have k: "set ex_keys = dom (TaskMap ex_sender)" by (auto simp: ex_keys_def ex_sender_eq)
  note t = tick_evicts_timed_out [OF ex_sender_reg_ok d k, of ex_P 100 100 ex_keys ex_keys ex_keys ex_net "\<lambda>i. 100"]
  have m: "TaskMap ex_sender ''old'' = Some 3" "TaskMap ex_sender ''dead'' = Some 4"
    "TaskMap ex_sender ''n1'' = Some 0" "heap ex_sender = ex_heap"
    by (simp_all add: ex_sender_eq)
  have c: "CheckTaskTimeOut ex_P 100 (ex_heap 3)" "CheckTaskTimeOut ex_P 100 (ex_heap 4)"
    "\<not> CheckTaskTimeOut ex_P 100 (ex_heap 0)" "SendTime (ex_heap 3) > 0" "\<not> SendTime (ex_heap 4) > 0"
    by (simp_all add: ex_P_def timed_out_def ex_heap_simps ex_task_def)
  from t show ?thesis by (simp add: m c)
qed

section \<open>The admin task sender: the size of the batch\<close>

text \<open>
  The third loop compares the length with \<open>MaxTaskLen\<close> after a pass, never before
  one: a batch that is already longer than \<open>MaxTaskLen\<close> still takes the first entry
  of the map when that is a normal task that needs sending.
\<close>

lemma normalLoop_over_limit:
  assumes "MaxTaskLen < length tasks" and "TaskMap s k = Some t"
    and "\<not> IsHeartbeatTask P (heap s t)" and "\<not> IsUrgentTask P (heap s t)"
    and "CheckTaskNeedSend P now (heap s t)"
  shows "normalLoop P now s (k # ks) tasks = tasks @ [t]"
  using assms by (simp add: Let_def)

text \<open>From a batch of at most \<open>MaxTaskLen\<close> tasks the loop never goes beyond \<open>MaxTaskLen + 1\<close>.\<close>

lemma normalLoop_length:
  "length tasks \<le> MaxTaskLen \<Longrightarrow> length (normalLoop P now s ks tasks) \<le> MaxTaskLen + 1"
proof (induction ks arbitrary: tasks)
  case Nil
  then show ?case by simp
next
  case (Cons k ks)
  show ?case
  proof (cases "TaskMap s k")
    case None
    then show ?thesis using Cons by simp
  next
    case (Some t)
    then show ?thesis using Cons.IH[of tasks] Cons.IH[of "tasks @ [t]"] Cons.prems
      by (auto simp: Let_def)
  qed
qed

text \<open>
  Claim C9, at the failing input. The registry holds 31 urgent tasks and one normal
  task, all waiting to be sent, and the third loop meets the normal task first. The
  batch comes out with 32 tasks: the 31 urgent ones, which already exceed
  \<open>MaxTaskLen = 30\<close>, and the normal task appended after them.
\<close>

theorem normal_task_appended_over_limit:
  "fst (getNeedDealTask ex_P 100 ex_ids32 ex_ids32 (rev ex_ids32) ex_sender32) = ex_addrs32 \<and>
   length ex_addrs32 = 32 \<and> last ex_addrs32 = 31 \<and> MaxTaskLen = 30 \<and>
   map (task_cls ex_P ex_sender32) (butlast ex_addrs32) = replicate 31 Urgent \<and>
   task_cls ex_P ex_sender32 31 = Normal \<and>
   CheckTaskNeedSend ex_P 100 (heap ex_sender32 31)"
proof -
  have a: "fst (getNeedDealTask ex_P 100 ex_ids32 ex_ids32 (rev ex_ids32) ex_sender32) = ex_addrs32"
    by (simp add: getNeedDealTask_def ex_ids32_def ex_addrs32_def ex_sender32_def ex_heap32_def
        ex_task_def ex_P_def IsHeartbeatTask_def IsUrgentTask_def needs_send_def MaxTaskLen_def
        Let_def)
  have b: "length ex_addrs32 = 32 \<and> last ex_addrs32 = 31 \<and> MaxTaskLen = 30"
    by (simp add: ex_addrs32_def MaxTaskLen_def)
  have c: "map (task_cls ex_P ex_sender32) (butlast ex_addrs32) = replicate 31 Urgent"
    by (simp add: ex_addrs32_def task_cls_def ex_sender32_def ex_heap32_def ex_task_def ex_P_def
        eval_nat_numeral)
  have d: "task_cls ex_P ex_sender32 31 = Normal \<and> CheckTaskNeedSend ex_P 100 (heap ex_sender32 31)"
    by (simp add: task_cls_def ex_sender32_def ex_heap32_def ex_task_def ex_P_def needs_send_def)
  from a b c d show ?thesis by blast
qed

end
